theory Spec2Isabelle
  imports Complex_Main "HOL-Library.Word"
begin

section \<open>Atoms, handles and the AtomSpace (include/atom.h)\<close>

text \<open>
  The C structures are modelled as records. A pointer to a handle is an optional address
  (\<open>None\<close> is \<^verbatim>\<open>NULL\<close>); the handles that are currently allocated live in a heap, a
  partial map from addresses to handle records. Every handle owns exactly one atom
  (\<^verbatim>\<open>atom_create\<close> allocates the two together and nothing else ever stores an
  \<^verbatim>\<open>atom_t*\<close>), so the atom is a field of the handle record. The array fields
  \<^verbatim>\<open>outgoing\<close>/\<^verbatim>\<open>incoming\<close> with their counts are lists; the counts are the
  lengths. The field \<^verbatim>\<open>user_data\<close> is never read or written and is left out.
  A \<^verbatim>\<open>double\<close> is stored and compared only, never computed with, and is modelled
  as a real number.
\<close>

datatype atom_type =
    ATOM_TYPE_CONCEPT
  | ATOM_TYPE_PREDICATE
  | ATOM_TYPE_LINK
  | ATOM_TYPE_NODE
  | ATOM_TYPE_VARIABLE
  | ATOM_TYPE_EVALUATION
  | ATOM_TYPE_EXECUTION
  | ATOM_TYPE_CUSTOM

record truth_value =
  strength :: real
  confidence :: real

record attention_value =
  sti :: "16 word"
  lti :: "16 word"
  vlti :: "16 word"

type_synonym addr = nat
type_synonym handle_ptr = "addr option"

record atom =
  atom_id :: "64 word"
  atom_type :: atom_type
  name :: "string option"
  tv :: truth_value
  av :: attention_value
  outgoing :: "handle_ptr list"
  incoming :: "handle_ptr list"
  creation_time :: "64 word"
  last_access_time :: "64 word"

record atom_handle =
  handle_id :: "64 word"
  atom :: atom
  ref_count :: "32 word"

type_synonym heap = "addr \<rightharpoonup> atom_handle"

text \<open>
  What the C program does on a bad pointer or on a copy past the end of a buffer is
  undefined (in practice a crash); the model makes it a fault value.
\<close>

datatype fault = NullDeref | InvalidPointer | BufferOverflow

subsection \<open>The id generator\<close>

text \<open>
  The static counter \<^verbatim>\<open>next_atom_id\<close> (initially 1) is the one piece of global
  state; it is threaded through explicitly. \<^verbatim>\<open>id = next_atom_id++\<close> on a
  \<^verbatim>\<open>uint64_t\<close> wraps around.
\<close>

definition next_atom_id_init :: "64 word" where
  "next_atom_id_init = 1"

definition generate_atom_id :: "64 word \<Rightarrow> 64 word \<times> 64 word" where
  "generate_atom_id next_atom_id = (next_atom_id, next_atom_id + 1)"

subsection \<open>The lookup hash table\<close>

text \<open>
  An array of \<^verbatim>\<open>HASH_TABLE_SIZE\<close> buckets, each a chain of (key, value) entries with
  the newest entry first.
\<close>

definition HASH_TABLE_SIZE :: nat where
  "HASH_TABLE_SIZE = 10007"

type_synonym hash_table = "nat \<Rightarrow> (64 word \<times> handle_ptr) list"

definition hash_table_create :: hash_table where
  "hash_table_create = (\<lambda>bucket. [])"

definition hash_table_insert :: "hash_table \<Rightarrow> 64 word \<Rightarrow> handle_ptr \<Rightarrow> hash_table" where
  "hash_table_insert table key val =
     (let bucket = unat key mod HASH_TABLE_SIZE
      in table(bucket := (key, val) # table bucket))"

fun chain_lookup :: "(64 word \<times> handle_ptr) list \<Rightarrow> 64 word \<Rightarrow> handle_ptr" where
  "chain_lookup [] key = None"
| "chain_lookup ((k, v) # entry_next) key =
     (if k = key then v else chain_lookup entry_next key)"

definition hash_table_lookup :: "hash_table \<Rightarrow> 64 word \<Rightarrow> handle_ptr" where
  "hash_table_lookup table key = chain_lookup (table (unat key mod HASH_TABLE_SIZE)) key"

subsection \<open>The AtomSpace\<close>

text \<open>
  \<^verbatim>\<open>atoms\<close> with \<^verbatim>\<open>atom_count\<close> is a list of handle pointers in insertion order.
  The structure is mutated in place in C; the model returns the updated record.
\<close>

record atomspace =
  atoms :: "handle_ptr list"
  atom_capacity :: nat
  lookup_table :: hash_table
  total_atoms_created :: "64 word"
  total_atoms_deleted :: "64 word"
  space_node_id :: "32 word"

definition atomspace_create :: "32 word \<Rightarrow> atomspace" where
  "atomspace_create nid =
     \<lparr> atoms = [], atom_capacity = 1024, lookup_table = hash_table_create,
       total_atoms_created = 0, total_atoms_deleted = 0, space_node_id = nid \<rparr>"

text \<open>
  \<^verbatim>\<open>atom_create\<close>. The address \<open>p\<close> is the block that \<^verbatim>\<open>malloc\<close> returns for the
  new handle and \<open>now\<close> is the value of \<^verbatim>\<open>time(NULL)\<close>; both are inputs of the model.
  The result is the returned pointer with the new counter, heap and AtomSpace.
\<close>

definition new_atom :: "64 word \<Rightarrow> atom_type \<Rightarrow> string option \<Rightarrow> 64 word \<Rightarrow> atom" where
  "new_atom idv ty nm now =
     \<lparr> atom_id = idv, atom_type = ty, name = nm,
       tv = \<lparr> strength = 1, confidence = 0 \<rparr>,
       av = \<lparr> sti = 0, lti = 0, vlti = 0 \<rparr>,
       outgoing = [], incoming = [],
       creation_time = now, last_access_time = now \<rparr>"

definition atom_create ::
  "addr \<Rightarrow> 64 word \<Rightarrow> 64 word \<Rightarrow> heap \<Rightarrow> atomspace option \<Rightarrow> atom_type \<Rightarrow> string option
     \<Rightarrow> handle_ptr \<times> 64 word \<times> heap \<times> atomspace option" where
  "atom_create p now next_atom_id hp space ty nm =
     (case space of
        None \<Rightarrow> (None, next_atom_id, hp, None)
      | Some sp \<Rightarrow>
          (case generate_atom_id next_atom_id of
             (idv, next_atom_id') \<Rightarrow>
               let handle = \<lparr> handle_id = idv, atom = new_atom idv ty nm now, ref_count = 1 \<rparr>;
                   cap = (if length (atoms sp) \<ge> atom_capacity sp
                          then atom_capacity sp * 2 else atom_capacity sp);
                   sp' = sp \<lparr> atoms := atoms sp @ [Some p],
                              atom_capacity := cap,
                              total_atoms_created := total_atoms_created sp + 1,
                              lookup_table := hash_table_insert (lookup_table sp) idv (Some p) \<rparr>
               in (Some p, next_atom_id', hp(p \<mapsto> handle), Some sp')))"

subsection \<open>Reference counting\<close>

definition atom_retain :: "heap \<Rightarrow> handle_ptr \<Rightarrow> fault + heap" where
  "atom_retain hp handle =
     (case handle of
        None \<Rightarrow> Inr hp
      | Some a \<Rightarrow>
          (case hp a of
             None \<Rightarrow> Inl InvalidPointer
           | Some h \<Rightarrow> Inr (hp(a \<mapsto> h \<lparr> ref_count := ref_count h + 1 \<rparr>))))"

definition free_handle :: "heap \<Rightarrow> addr \<Rightarrow> fault + heap" where
  "free_handle hp a = (if hp a = None then Inl InvalidPointer else Inr (hp(a := None)))"

text \<open>
  \<^verbatim>\<open>atom_release\<close> calls itself on every outgoing handle once the count has dropped to
  zero. The recursion depth is bounded by a fuel argument; \<open>None\<close> means that the fuel
  did not suffice. The loop reads \<^verbatim>\<open>atom->outgoing_count\<close> and
  \<^verbatim>\<open>atom->outgoing[i]\<close> from the handle \<open>a\<close> at each iteration, so \<open>a\<close> has to be
  allocated still; nothing in the recursion writes an outgoing array, so the list read at
  the start is the list the loop walks.
\<close>

fun atom_release :: "nat \<Rightarrow> heap \<Rightarrow> handle_ptr \<Rightarrow> (fault + heap) option"
  and release_outgoing :: "nat \<Rightarrow> heap \<Rightarrow> addr \<Rightarrow> handle_ptr list \<Rightarrow> (fault + heap) option" where
  "atom_release 0 hp handle = None"
| "atom_release (Suc n) hp None = Some (Inr hp)"
| "atom_release (Suc n) hp (Some a) =
     (case hp a of
        None \<Rightarrow> Some (Inl InvalidPointer)
      | Some h \<Rightarrow>
          let h' = h \<lparr> ref_count := ref_count h - 1 \<rparr>;
              hp1 = hp(a \<mapsto> h')
          in if ref_count h' = 0
             then (case release_outgoing n hp1 a (outgoing (atom h')) of
                     None \<Rightarrow> None
                   | Some (Inl e) \<Rightarrow> Some (Inl e)
                   | Some (Inr hp2) \<Rightarrow> Some (free_handle hp2 a))
             else Some (Inr hp1))"
| "release_outgoing n hp a [] =
     (if hp a = None then Some (Inl InvalidPointer) else Some (Inr hp))"
| "release_outgoing n hp a (t # ts) =
     (if hp a = None then Some (Inl InvalidPointer)
      else (case atom_release n hp t of
              None \<Rightarrow> None
            | Some (Inl e) \<Rightarrow> Some (Inl e)
            | Some (Inr hp') \<Rightarrow> release_outgoing n hp' a ts))"

subsection \<open>Truth and attention values\<close>

definition atom_set_tv :: "64 word \<Rightarrow> heap \<Rightarrow> handle_ptr \<Rightarrow> real \<Rightarrow> real \<Rightarrow> fault + heap" where
  "atom_set_tv now hp handle s c =
     (case handle of
        None \<Rightarrow> Inr hp
      | Some a \<Rightarrow>
          (case hp a of
             None \<Rightarrow> Inl InvalidPointer
           | Some h \<Rightarrow>
               Inr (hp(a \<mapsto> h \<lparr> atom := (atom h) \<lparr> tv := \<lparr> strength = s, confidence = c \<rparr>,
                                                  last_access_time := now \<rparr> \<rparr>))))"

definition atom_get_tv :: "64 word \<Rightarrow> heap \<Rightarrow> handle_ptr \<Rightarrow> fault + (truth_value \<times> heap)" where
  "atom_get_tv now hp handle =
     (case handle of
        None \<Rightarrow> Inr (\<lparr> strength = 0, confidence = 0 \<rparr>, hp)
      | Some a \<Rightarrow>
          (case hp a of
             None \<Rightarrow> Inl InvalidPointer
           | Some h \<Rightarrow>
               Inr (tv (atom h),
                    hp(a \<mapsto> h \<lparr> atom := (atom h) \<lparr> last_access_time := now \<rparr> \<rparr>))))"

definition atom_set_av ::
  "64 word \<Rightarrow> heap \<Rightarrow> handle_ptr \<Rightarrow> 16 word \<Rightarrow> 16 word \<Rightarrow> 16 word \<Rightarrow> fault + heap" where
  "atom_set_av now hp handle s l v =
     (case handle of
        None \<Rightarrow> Inr hp
      | Some a \<Rightarrow>
          (case hp a of
             None \<Rightarrow> Inl InvalidPointer
           | Some h \<Rightarrow>
               Inr (hp(a \<mapsto> h \<lparr> atom := (atom h) \<lparr> av := \<lparr> sti = s, lti = l, vlti = v \<rparr>,
                                                  last_access_time := now \<rparr> \<rparr>))))"

definition atom_get_av :: "64 word \<Rightarrow> heap \<Rightarrow> handle_ptr \<Rightarrow> fault + (attention_value \<times> heap)" where
  "atom_get_av now hp handle =
     (case handle of
        None \<Rightarrow> Inr (\<lparr> sti = 0, lti = 0, vlti = 0 \<rparr>, hp)
      | Some a \<Rightarrow>
          (case hp a of
             None \<Rightarrow> Inl InvalidPointer
           | Some h \<Rightarrow>
               Inr (av (atom h),
                    hp(a \<mapsto> h \<lparr> atom := (atom h) \<lparr> last_access_time := now \<rparr> \<rparr>))))"

subsection \<open>Links\<close>

text \<open>
  The loop of \<^verbatim>\<open>atom_create_link\<close> over the \<open>count\<close> cells of the argument array,
  for the new handle at address \<open>l\<close>: store the cell, retain the target, append the new
  handle to the target's incoming array. \<^verbatim>\<open>atom_retain\<close> ignores a null target, and the
  dereference \<^verbatim>\<open>outgoing[i]->atom\<close> that follows then fails.
\<close>

fun link_targets :: "addr \<Rightarrow> heap \<Rightarrow> handle_ptr list \<Rightarrow> fault + heap" where
  "link_targets l hp [] = Inr hp"
| "link_targets l hp (t # ts) =
     (case hp l of
        None \<Rightarrow> Inl InvalidPointer
      | Some lh \<Rightarrow>
          (case atom_retain
                  (hp(l \<mapsto> lh \<lparr> atom := (atom lh) \<lparr> outgoing := outgoing (atom lh) @ [t] \<rparr> \<rparr>)) t of
             Inl e \<Rightarrow> Inl e
           | Inr hp2 \<Rightarrow>
               (case t of
                  None \<Rightarrow> Inl NullDeref
                | Some ta \<Rightarrow>
                    (case hp2 ta of
                       None \<Rightarrow> Inl InvalidPointer
                     | Some th \<Rightarrow>
                         link_targets l
                           (hp2(ta \<mapsto> th \<lparr> atom := (atom th)
                                    \<lparr> incoming := incoming (atom th) @ [Some l] \<rparr> \<rparr>))
                           ts))))"

definition atom_create_link ::
  "addr \<Rightarrow> 64 word \<Rightarrow> 64 word \<Rightarrow> heap \<Rightarrow> atomspace option \<Rightarrow> atom_type \<Rightarrow> handle_ptr list
     \<Rightarrow> fault + (handle_ptr \<times> 64 word \<times> heap \<times> atomspace option)" where
  "atom_create_link p now next_atom_id hp space ty outgoing_arg =
     (case space of
        None \<Rightarrow> Inr (None, next_atom_id, hp, None)
      | Some sp \<Rightarrow>
          (case atom_create p now next_atom_id hp (Some sp) ty None of
             (handle, next_atom_id', hp1, space') \<Rightarrow>
               (case handle of
                  None \<Rightarrow> Inr (None, next_atom_id', hp1, space')
                | Some l \<Rightarrow>
                    if length outgoing_arg > 0
                    then (case link_targets l hp1 outgoing_arg of
                            Inl e \<Rightarrow> Inl e
                          | Inr hp2 \<Rightarrow> Inr (Some l, next_atom_id', hp2, space'))
                    else Inr (Some l, next_atom_id', hp1, space'))))"

subsection \<open>Queries\<close>

definition atomspace_get_atom :: "atomspace option \<Rightarrow> 64 word \<Rightarrow> handle_ptr" where
  "atomspace_get_atom space idv =
     (case space of
        None \<Rightarrow> None
      | Some sp \<Rightarrow> hash_table_lookup (lookup_table sp) idv)"

text \<open>
  \<^verbatim>\<open>atomspace_get_atoms_by_type\<close>, \<^verbatim>\<open>atomspace_get_atoms_by_name\<close> and
  \<^verbatim>\<open>atomspace_match_pattern\<close> are the same two loops around a different test of the
  handle: the first loop counts the matches, the second fills the result array and
  retains each handle it stores. A null cell of \<^verbatim>\<open>atoms\<close> is skipped; the test reads
  through the handle, which has to be allocated.
\<close>

fun count_matches :: "(atom_handle \<Rightarrow> bool) \<Rightarrow> heap \<Rightarrow> handle_ptr list \<Rightarrow> nat \<Rightarrow> fault + nat" where
  "count_matches test hp [] matches = Inr matches"
| "count_matches test hp (None # cells) matches = count_matches test hp cells matches"
| "count_matches test hp (Some a # cells) matches =
     (case hp a of
        None \<Rightarrow> Inl InvalidPointer
      | Some h \<Rightarrow>
          count_matches test hp cells (if test h then matches + 1 else matches))"

fun collect_matches ::
  "(atom_handle \<Rightarrow> bool) \<Rightarrow> heap \<Rightarrow> handle_ptr list \<Rightarrow> handle_ptr list
     \<Rightarrow> fault + (handle_ptr list \<times> heap)" where
  "collect_matches test hp [] result = Inr (result, hp)"
| "collect_matches test hp (None # cells) result = collect_matches test hp cells result"
| "collect_matches test hp (Some a # cells) result =
     (case hp a of
        None \<Rightarrow> Inl InvalidPointer
      | Some h \<Rightarrow>
          if test h
          then (case atom_retain hp (Some a) of
                  Inl e \<Rightarrow> Inl e
                | Inr hp' \<Rightarrow> collect_matches test hp' cells (result @ [Some a]))
          else collect_matches test hp cells result)"

text \<open>
  The result of a query is the returned array with the value stored to \<^verbatim>\<open>*count\<close>
  (\<open>None\<close> for the \<^verbatim>\<open>NULL\<close> return, which leaves \<^verbatim>\<open>*count\<close> alone), and the heap.
\<close>

definition get_atoms_matching ::
  "(atom_handle \<Rightarrow> bool) \<Rightarrow> heap \<Rightarrow> atomspace
     \<Rightarrow> fault + ((handle_ptr list \<times> nat) option \<times> heap)" where
  "get_atoms_matching test hp sp =
     (case count_matches test hp (atoms sp) 0 of
        Inl e \<Rightarrow> Inl e
      | Inr matches \<Rightarrow>
          (case collect_matches test hp (atoms sp) [] of
             Inl e \<Rightarrow> Inl e
           | Inr (result, hp') \<Rightarrow> Inr (Some (result, matches), hp')))"

definition type_test :: "atom_type \<Rightarrow> atom_handle \<Rightarrow> bool" where
  "type_test ty h = (atom_type (atom h) = ty)"

definition name_test :: "string \<Rightarrow> atom_handle \<Rightarrow> bool" where
  "name_test nm h = (case name (atom h) of None \<Rightarrow> False | Some s \<Rightarrow> s = nm)"

definition atomspace_get_atoms_by_type ::
  "heap \<Rightarrow> atomspace option \<Rightarrow> atom_type \<Rightarrow> bool
     \<Rightarrow> fault + ((handle_ptr list \<times> nat) option \<times> heap)" where
  "atomspace_get_atoms_by_type hp space ty count_given =
     (case space of
        None \<Rightarrow> Inr (None, hp)
      | Some sp \<Rightarrow>
          if \<not> count_given then Inr (None, hp)
          else get_atoms_matching (type_test ty) hp sp)"

definition atomspace_get_atoms_by_name ::
  "heap \<Rightarrow> atomspace option \<Rightarrow> string option \<Rightarrow> bool
     \<Rightarrow> fault + ((handle_ptr list \<times> nat) option \<times> heap)" where
  "atomspace_get_atoms_by_name hp space name_arg count_given =
     (case space of
        None \<Rightarrow> Inr (None, hp)
      | Some sp \<Rightarrow>
          (case name_arg of
             None \<Rightarrow> Inr (None, hp)
           | Some nm \<Rightarrow>
               if \<not> count_given then Inr (None, hp)
               else get_atoms_matching (name_test nm) hp sp))"

subsection \<open>Sequences of creations and the ids of an AtomSpace\<close>

text \<open>
  A sequence of \<^verbatim>\<open>atom_create\<close> calls, each with the block \<^verbatim>\<open>malloc\<close> hands out, the
  clock value, the type and the name. \<open>ids_of\<close> reads the ids of the handles that an
  array of handle pointers refers to.
\<close>

fun create_atoms ::
  "(addr \<times> 64 word \<times> atom_type \<times> string option) list \<Rightarrow> 64 word \<Rightarrow> heap \<Rightarrow> atomspace option
     \<Rightarrow> 64 word \<times> heap \<times> atomspace option" where
  "create_atoms [] next_atom_id hp space = (next_atom_id, hp, space)"
| "create_atoms ((p, now, ty, nm) # reqs) next_atom_id hp space =
     (case atom_create p now next_atom_id hp space ty nm of
        (handle, next_atom_id', hp', space') \<Rightarrow> create_atoms reqs next_atom_id' hp' space')"

fun ids_of :: "heap \<Rightarrow> handle_ptr list \<Rightarrow> 64 word list" where
  "ids_of hp [] = []"
| "ids_of hp (None # cells) = ids_of hp cells"
| "ids_of hp (Some a # cells) =
     (case hp a of None \<Rightarrow> ids_of hp cells | Some h \<Rightarrow> handle_id h # ids_of hp cells)"

subsection \<open>Reference notions for the statements\<close>

text \<open>
  \<open>cell_matches\<close>: the cell holds a handle that passes the test.
  \<open>retained\<close>: the handle after one \<^verbatim>\<open>atom_retain\<close> for each place it has in a result.
  \<open>upd_target\<close>: a target after the link at \<open>l\<close> has been attached once for each slot
  in which the target occurs.
\<close>

definition cell_matches :: "(atom_handle \<Rightarrow> bool) \<Rightarrow> heap \<Rightarrow> handle_ptr \<Rightarrow> bool" where
  "cell_matches test hp cell =
     (case cell of
        None \<Rightarrow> False
      | Some a \<Rightarrow> (case hp a of None \<Rightarrow> False | Some h \<Rightarrow> test h))"

definition retained :: "handle_ptr list \<Rightarrow> addr \<Rightarrow> atom_handle \<Rightarrow> atom_handle" where
  "retained result a h = h \<lparr> ref_count := ref_count h + of_nat (count_list result (Some a)) \<rparr>"

definition upd_target :: "addr \<Rightarrow> handle_ptr list \<Rightarrow> addr \<Rightarrow> atom_handle \<Rightarrow> atom_handle" where
  "upd_target l ts a th =
     th \<lparr> atom := (atom th) \<lparr> incoming := incoming (atom th) @ replicate (count_list ts (Some a)) (Some l) \<rparr>,
          ref_count := ref_count th + of_nat (count_list ts (Some a)) \<rparr>"

text \<open>
  \<open>released\<close>: a handle after one decrement of its count for each slot it has in \<open>ts\<close>.
\<close>

definition released :: "handle_ptr list \<Rightarrow> addr \<Rightarrow> atom_handle \<Rightarrow> atom_handle" where
  "released ts b h = h \<lparr> ref_count := ref_count h - of_nat (count_list ts (Some b)) \<rparr>"

text \<open>
  \<open>same_edges hp hp'\<close>: every handle allocated in \<open>hp'\<close> was allocated in \<open>hp\<close> with
  the same id and the same outgoing and incoming arrays.
\<close>

definition same_edges :: "heap \<Rightarrow> heap \<Rightarrow> bool" where
  "same_edges hp hp' =
     (\<forall>b hb'. hp' b = Some hb' \<longrightarrow>
        (\<exists>hb. hp b = Some hb \<and> handle_id hb' = handle_id hb \<and>
              outgoing (atom hb') = outgoing (atom hb) \<and>
              incoming (atom hb') = incoming (atom hb)))"

subsection \<open>A small AtomSpace\<close>

text \<open>
  The state after \<^verbatim>\<open>atomspace_create(1)\<close>, \<^verbatim>\<open>atom_create\<close> of a concept \<open>A\<close>
  (block 10) and \<^verbatim>\<open>atom_create_link\<close> of a link to it (block 20), all at clock 1000,
  written out; \<open>demo_space_reached\<close> below shows that the calls produce it.
\<close>

definition demo_node :: atom_handle where
  "demo_node =
     \<lparr> handle_id = 1,
       atom = (new_atom 1 ATOM_TYPE_CONCEPT (Some ''A'') 1000) \<lparr> incoming := [Some 20] \<rparr>,
       ref_count = 2 \<rparr>"

definition demo_link :: atom_handle where
  "demo_link =
     \<lparr> handle_id = 2,
       atom = (new_atom 2 ATOM_TYPE_LINK None 1000) \<lparr> outgoing := [Some 10] \<rparr>,
       ref_count = 1 \<rparr>"

definition demo_heap :: heap where
  "demo_heap = [10 \<mapsto> demo_node, 20 \<mapsto> demo_link]"

definition demo_space :: atomspace where
  "demo_space =
     \<lparr> atoms = [Some 10, Some 20], atom_capacity = 1024,
       lookup_table =
         hash_table_insert (hash_table_insert hash_table_create 1 (Some 10)) 2 (Some 20),
       total_atoms_created = 2, total_atoms_deleted = 0, space_node_id = 1 \<rparr>"

section \<open>Distributed primitives (include/distributed.h, src/distributed.c)\<close>

type_synonym byte = "8 word"

record node_info =
  node_id :: "32 word"
  hostname :: string
  port :: "16 word"
  is_active :: bool
  last_heartbeat :: "64 word"

datatype message_type =
    MSG_TYPE_ATOM_CREATE
  | MSG_TYPE_ATOM_UPDATE
  | MSG_TYPE_ATOM_DELETE
  | MSG_TYPE_ATOM_QUERY
  | MSG_TYPE_ATOM_RESPONSE
  | MSG_TYPE_SYNC_REQUEST
  | MSG_TYPE_SYNC_RESPONSE
  | MSG_TYPE_HEARTBEAT
  | MSG_TYPE_NODE_JOIN
  | MSG_TYPE_NODE_LEAVE

record message =
  msg_type :: message_type
  source_node :: "32 word"
  dest_node :: "32 word"
  timestamp :: "64 word"
  payload_size :: nat
  payload :: "byte list option"

text \<open>
  The coordination context, as far as the message handler reads and writes it: the node
  table (an array of pointers to separately allocated entries, each owned by the table)
  and the three callbacks, of which the model records whether they are set. A call of a
  callback is an event in the handler's output.
\<close>

record distributed_ctx =
  this_node_id :: "32 word"
  nodes :: "node_info list"
  running :: bool
  on_message :: bool
  on_node_join :: bool
  on_node_leave :: bool

datatype callback_call =
    ON_MESSAGE message
  | ON_NODE_JOIN "byte list option"
  | ON_NODE_LEAVE "byte list option"

text \<open>
  The heartbeat loop of the handler: the first entry whose id is the source is updated,
  and the loop stops there.
\<close>

fun heartbeat_update :: "node_info list \<Rightarrow> 32 word \<Rightarrow> 64 word \<Rightarrow> node_info list" where
  "heartbeat_update [] src ts = []"
| "heartbeat_update (n # ns) src ts =
     (if node_id n = src
      then n \<lparr> last_heartbeat := ts, is_active := True \<rparr> # ns
      else n # heartbeat_update ns src ts)"

text \<open>
  The \<^verbatim>\<open>switch\<close> of \<^verbatim>\<open>message_handler_thread_func\<close> on a message that
  \<^verbatim>\<open>distributed_receive_message\<close> returned.
\<close>

definition message_handler_switch ::
  "distributed_ctx \<Rightarrow> message \<Rightarrow> distributed_ctx \<times> callback_call list" where
  "message_handler_switch ctx msg =
     (case msg_type msg of
        MSG_TYPE_HEARTBEAT \<Rightarrow>
          (ctx \<lparr> nodes := heartbeat_update (nodes ctx) (source_node msg) (timestamp msg) \<rparr>, [])
      | MSG_TYPE_NODE_JOIN \<Rightarrow>
          (ctx, if on_node_join ctx then [ON_NODE_JOIN (payload msg)] else [])
      | MSG_TYPE_NODE_LEAVE \<Rightarrow>
          (ctx, if on_node_leave ctx then [ON_NODE_LEAVE (payload msg)] else [])
      | _ \<Rightarrow>
          (ctx, if on_message ctx then [ON_MESSAGE msg] else []))"

text \<open>
  The handler loop over what the successive receive calls return while \<^verbatim>\<open>running\<close>
  stays set (\<open>None\<close>: nothing arrived within the timeout).
\<close>

fun message_handler_thread_func ::
  "distributed_ctx \<Rightarrow> message option list \<Rightarrow> distributed_ctx \<times> callback_call list" where
  "message_handler_thread_func ctx [] = (ctx, [])"
| "message_handler_thread_func ctx (received # later) =
     (if \<not> running ctx then (ctx, [])
      else (case received of
              None \<Rightarrow> message_handler_thread_func ctx later
            | Some msg \<Rightarrow>
                (case message_handler_switch ctx msg of
                   (ctx', calls) \<Rightarrow>
                     (case message_handler_thread_func ctx' later of
                        (ctx'', calls') \<Rightarrow> (ctx'', calls @ calls')))))"

text \<open>
  A context with two known nodes, and the message that \<^verbatim>\<open>heartbeat_thread_func\<close>
  builds, for a given source and clock value.
\<close>

definition demo_ctx :: distributed_ctx where
  "demo_ctx =
     \<lparr> this_node_id = 1,
       nodes = [\<lparr> node_id = 2, hostname = ''node2.local'', port = 5001,
                  is_active = False, last_heartbeat = 0 \<rparr>,
                \<lparr> node_id = 3, hostname = ''node3.local'', port = 5002,
                  is_active = False, last_heartbeat = 0 \<rparr>],
       running = True, on_message = False, on_node_join = False, on_node_leave = False \<rparr>"

definition heartbeat_msg :: "32 word \<Rightarrow> 64 word \<Rightarrow> message" where
  "heartbeat_msg src now_ms =
     \<lparr> msg_type = MSG_TYPE_HEARTBEAT, source_node = src, dest_node = 0,
       timestamp = now_ms, payload_size = 0, payload = None \<rparr>"

subsection \<open>Message queues\<close>

text \<open>
  \<^verbatim>\<open>msgsnd\<close> and \<^verbatim>\<open>msgrcv\<close> are operating-system calls, modelled from POSIX
  (System V message queues): the kernel keeps the messages of a queue in the order in
  which they were sent, each with its type; \<^verbatim>\<open>msgsnd\<close> with \<^verbatim>\<open>IPC_NOWAIT\<close> fails when
  the type is not positive, the text is longer than the system limit, or the queue has no
  room; \<^verbatim>\<open>msgrcv\<close> with \<^verbatim>\<open>msgtyp = 0\<close> takes the first message on the queue, fails
  when that message is longer than \<^verbatim>\<open>msgsz\<close>, and on an empty queue fails under
  \<^verbatim>\<open>IPC_NOWAIT\<close> and blocks otherwise. A message type is a \<^verbatim>\<open>long\<close>, a 64-bit
  word read as a signed number.
\<close>

record sysv_queue =
  q_messages :: "(64 word \<times> byte list) list"
  msg_qbytes :: nat
  msgmax :: nat

definition queue_bytes :: "sysv_queue \<Rightarrow> nat" where
  "queue_bytes q = sum_list (map (length \<circ> snd) (q_messages q))"

definition msgsnd :: "sysv_queue \<Rightarrow> 64 word \<Rightarrow> byte list \<Rightarrow> int \<times> sysv_queue" where
  "msgsnd q mtype mtext =
     (if sint mtype < 1 \<or> length mtext > msgmax q then (- 1, q)
      else if queue_bytes q + length mtext > msg_qbytes q then (- 1, q)
      else (0, q \<lparr> q_messages := q_messages q @ [(mtype, mtext)] \<rparr>))"

datatype msgrcv_result = MsgBlocks | MsgFails | MsgTaken "64 word" "byte list" sysv_queue

definition msgrcv :: "sysv_queue \<Rightarrow> nat \<Rightarrow> bool \<Rightarrow> msgrcv_result" where
  "msgrcv q msgsz nowait =
     (case q_messages q of
        [] \<Rightarrow> if nowait then MsgFails else MsgBlocks
      | (mtype, mtext) # rest \<Rightarrow>
          if length mtext > msgsz then MsgFails
          else MsgTaken mtype mtext (q \<lparr> q_messages := rest \<rparr>))"

text \<open>
  The wrapper structure holds the queue id; the model holds the kernel queue that the id
  names. The data of a send is a byte list whose length is the \<^verbatim>\<open>size\<close> argument. The
  local \<^verbatim>\<open>msg_buf.mtext\<close> has 65536 bytes; a copy of more than that is a fault.
  The priority is a 32-bit \<^verbatim>\<open>int\<close>: \<^verbatim>\<open>priority + 1\<close> is added in 32 bits (at
  \<^verbatim>\<open>INT_MAX\<close> the sum wraps to \<^verbatim>\<open>INT_MIN\<close>) and then sign-extended to the
  \<^verbatim>\<open>long\<close> message type.
\<close>

record message_queue =
  mq_kernel :: sysv_queue
  max_messages :: nat
  max_message_size :: nat

definition message_queue_send ::
  "message_queue option \<Rightarrow> byte list option \<Rightarrow> 32 word
     \<Rightarrow> fault + (int \<times> message_queue option)" where
  "message_queue_send mq data priority =
     (case mq of
        None \<Rightarrow> Inr (- 1, None)
      | Some m \<Rightarrow>
          (case data of
             None \<Rightarrow> Inr (- 1, mq)
           | Some bytes \<Rightarrow>
               if length bytes > max_message_size m then Inr (- 1, mq)
               else if length bytes > 65536 then Inl BufferOverflow
               else (case msgsnd (mq_kernel m) (scast (priority + 1)) bytes of
                       (r, q') \<Rightarrow> Inr (r, Some (m \<lparr> mq_kernel := q' \<rparr>)))))"

text \<open>
  The outcome of a receive: it blocks, it faults, or it returns its value together with
  what it stored to the buffer and to \<^verbatim>\<open>*priority\<close> (\<open>None\<close>: not written).
  \<^verbatim>\<open>(int)(msg_buf.mtype - 1)\<close> subtracts in the 64-bit \<^verbatim>\<open>long\<close> and keeps the low
  32 bits. The returned size is at most 65536, so its conversion to \<^verbatim>\<open>int\<close> keeps it.
\<close>

datatype receive_outcome =
    Blocks
  | Faults fault
  | Returns int "byte list option" "32 word option" "message_queue option"

definition message_queue_receive ::
  "message_queue option \<Rightarrow> bool \<Rightarrow> nat \<Rightarrow> bool \<Rightarrow> 32 word \<Rightarrow> receive_outcome" where
  "message_queue_receive mq buffer_given bufsize priority_given timeout_ms =
     (case mq of
        None \<Rightarrow> Returns (- 1) None None None
      | Some m \<Rightarrow>
          if \<not> buffer_given then Returns (- 1) None None mq
          else (case msgrcv (mq_kernel m) bufsize (timeout_ms = 0) of
                  MsgBlocks \<Rightarrow> Blocks
                | MsgFails \<Rightarrow> Returns (- 1) None None mq
                | MsgTaken mtype mtext q' \<Rightarrow>
                    if length mtext > 65536 then Faults BufferOverflow
                    else if int (length mtext) > 0
                    then Returns (int (length mtext)) (Some mtext)
                           (if priority_given then Some (ucast (mtype - 1)) else None)
                           (Some (m \<lparr> mq_kernel := q' \<rparr>))
                    else Returns (- 1) None None (Some (m \<lparr> mq_kernel := q' \<rparr>))))"

text \<open>
  A run of sends that all return 0, followed by as many non-blocking receives that all
  return a positive size: the messages handed back, each with its priority.
\<close>

fun send_all :: "message_queue \<Rightarrow> (byte list \<times> 32 word) list \<Rightarrow> message_queue option" where
  "send_all mq [] = Some mq"
| "send_all mq ((bytes, priority) # later) =
     (case message_queue_send (Some mq) (Some bytes) priority of
        Inr (r, Some mq') \<Rightarrow> if r = 0 then send_all mq' later else None
      | _ \<Rightarrow> None)"

fun receive_all :: "message_queue \<Rightarrow> nat \<Rightarrow> nat \<Rightarrow> (byte list \<times> 32 word) list option" where
  "receive_all mq 0 bufsize = Some []"
| "receive_all mq (Suc k) bufsize =
     (case message_queue_receive (Some mq) True bufsize True 0 of
        Returns r (Some bytes) (Some priority) (Some mq') \<Rightarrow>
          if r > 0
          then (case receive_all mq' k bufsize of
                  None \<Rightarrow> None
                | Some got \<Rightarrow> Some ((bytes, priority) # got))
          else None
      | _ \<Rightarrow> None)"

definition send_then_receive ::
  "message_queue \<Rightarrow> (byte list \<times> 32 word) list \<Rightarrow> nat
     \<Rightarrow> (byte list \<times> 32 word) list option" where
  "send_then_receive mq msgs bufsize =
     (case send_all mq msgs of
        None \<Rightarrow> None
      | Some mq' \<Rightarrow> receive_all mq' (length msgs) bufsize)"

definition demo_queue :: message_queue where
  "demo_queue =
     \<lparr> mq_kernel = \<lparr> q_messages = [], msg_qbytes = 16384, msgmax = 8192 \<rparr>,
       max_messages = 100, max_message_size = 65536 \<rparr>"

subsection \<open>Consensus\<close>

datatype consensus_phase =
    CONSENSUS_PROPOSE
  | CONSENSUS_ACCEPT
  | CONSENSUS_REJECT
  | CONSENSUS_COMMIT

record consensus =
  proposal_id :: "64 word"
  phase :: consensus_phase
  proposal_data :: "byte list"
  proposal_size :: nat
  voted_nodes :: "32 word list"
  vote_count :: nat
  required_votes :: nat

definition consensus_create :: "64 word \<Rightarrow> byte list \<Rightarrow> nat \<Rightarrow> consensus" where
  "consensus_create now data required =
     \<lparr> proposal_id = now, phase = CONSENSUS_PROPOSE,
       proposal_data = data, proposal_size = length data,
       voted_nodes = replicate required 0, vote_count = 0,
       required_votes = required \<rparr>"

text \<open>The body of \<^verbatim>\<open>consensus_vote\<close> is \<^verbatim>\<open>return 0\<close> under a TODO comment.\<close>

definition consensus_vote ::
  "distributed_ctx option \<Rightarrow> consensus \<Rightarrow> bool \<Rightarrow> int \<times> consensus" where
  "consensus_vote ctx c accept = (0, c)"

definition consensus_is_committed :: "consensus \<Rightarrow> bool" where
  "consensus_is_committed c =
     (phase c = CONSENSUS_COMMIT \<and> vote_count c \<ge> required_votes c)"


section \<open>Properties\<close>

subsection \<open>Truth and attention values\<close>

text \<open>
  Claim C10. With a null handle \<^verbatim>\<open>atom_get_tv\<close> returns the truth value (0.0, 0.0) and
  \<^verbatim>\<open>atom_get_av\<close> the attention value (0, 0, 0); neither call fails, and the heap is
  returned as it was.
\<close>

theorem null_handle_getters:
  "atom_get_tv now hp None = Inr (\<lparr> strength = 0, confidence = 0 \<rparr>, hp) \<and>
   atom_get_av now hp None = Inr (\<lparr> sti = 0, lti = 0, vlti = 0 \<rparr>, hp)"
  by (simp add: atom_get_tv_def atom_get_av_def)

text \<open>
  Claim C7. On an allocated handle, \<^verbatim>\<open>atom_set_tv(h, s, c)\<close> followed by
  \<^verbatim>\<open>atom_get_tv(h)\<close> yields \<open>(s, c)\<close>, and \<^verbatim>\<open>atom_set_av(h, sti, lti, vlti)\<close> followed
  by \<^verbatim>\<open>atom_get_av(h)\<close> yields \<open>(sti, lti, vlti)\<close>. Neither call fails. (The values
  need not even be in range.)
\<close>

theorem tv_av_round_trip:
  assumes "hp a = Some h"
  shows "(\<exists>hp1 hp2. atom_set_tv now hp (Some a) s c = Inr hp1 \<and>
            atom_get_tv now' hp1 (Some a) = Inr (\<lparr> strength = s, confidence = c \<rparr>, hp2)) \<and>
         (\<exists>hp1 hp2. atom_set_av now hp (Some a) i l v = Inr hp1 \<and>
            atom_get_av now' hp1 (Some a) = Inr (\<lparr> sti = i, lti = l, vlti = v \<rparr>, hp2))"
  using assms
  by (simp add: atom_set_tv_def atom_get_tv_def atom_set_av_def atom_get_av_def)

lemma demo_heap_node: "demo_heap 10 = Some demo_node"
  by (simp add: demo_heap_def)

lemma demo_heap_link: "demo_heap 20 = Some demo_link"
  by (simp add: demo_heap_def)

theorem tv_av_round_trip_witness:
  "(\<exists>hp1 hp2. atom_set_tv 1001 demo_heap (Some 10) (4 / 5) (9 / 10) = Inr hp1 \<and>
      atom_get_tv 1002 hp1 (Some 10) = Inr (\<lparr> strength = 4 / 5, confidence = 9 / 10 \<rparr>, hp2)) \<and>
   (\<exists>hp1 hp2. atom_set_av 1001 demo_heap (Some 10) 100 50 25 = Inr hp1 \<and>
      atom_get_av 1002 hp1 (Some 10) = Inr (\<lparr> sti = 100, lti = 50, vlti = 25 \<rparr>, hp2))"
  by (rule tv_av_round_trip [where hp = demo_heap and a = 10, OF demo_heap_node])

text \<open>
  Claim C2, as stated, fails: \<^verbatim>\<open>atom_set_tv\<close> with strength 2 and confidence -1 on the
  concept of the small AtomSpace succeeds and stores 2 and -1.
\<close>

theorem atom_set_tv_counterexample:
  "atom_set_tv 1001 demo_heap (Some 10) 2 (- 1) =
     Inr (demo_heap(10 \<mapsto> demo_node \<lparr> atom := (atom demo_node)
            \<lparr> tv := \<lparr> strength = 2, confidence = - 1 \<rparr>, last_access_time := 1001 \<rparr> \<rparr>))"
  by (simp add: atom_set_tv_def demo_heap_def)

text \<open>
  Claim C2, amended. \<^verbatim>\<open>atom_set_tv\<close> does not clamp and has no failure to report: on an
  allocated handle it stores the strength and the confidence exactly as given, whatever
  their values, and leaves every other handle alone; on a null handle it does nothing.
\<close>

theorem atom_set_tv_stores_as_given:
  assumes "hp a = Some h"
  shows "atom_set_tv now hp None s c = Inr hp \<and>
         (\<exists>hp' h'. atom_set_tv now hp (Some a) s c = Inr hp' \<and> hp' a = Some h' \<and>
            strength (tv (atom h')) = s \<and> confidence (tv (atom h')) = c \<and>
            (\<forall>b. b \<noteq> a \<longrightarrow> hp' b = hp b))"
  using assms by (simp add: atom_set_tv_def)

theorem atom_set_tv_stores_as_given_witness:
  "atom_set_tv 1001 demo_heap None 7 (- 3) = Inr demo_heap \<and>
   (\<exists>hp' h'. atom_set_tv 1001 demo_heap (Some 10) 7 (- 3) = Inr hp' \<and> hp' 10 = Some h' \<and>
      strength (tv (atom h')) = 7 \<and> confidence (tv (atom h')) = - 3 \<and>
      (\<forall>b. b \<noteq> 10 \<longrightarrow> hp' b = demo_heap b))"
  by (rule atom_set_tv_stores_as_given [where hp = demo_heap and a = 10, OF demo_heap_node])

subsection \<open>Links\<close>

lemma link_targets_ok:
  "hp l = Some lh \<Longrightarrow> Some l \<notin> set ts \<Longrightarrow> (\<forall>t \<in> set ts. \<exists>a. t = Some a \<and> hp a \<noteq> None) \<Longrightarrow>
   \<exists>hp'. link_targets l hp ts = Inr hp' \<and>
     hp' l = Some (lh \<lparr> atom := (atom lh) \<lparr> outgoing := outgoing (atom lh) @ ts \<rparr> \<rparr>) \<and>
     (\<forall>a. a \<noteq> l \<longrightarrow> hp' a = map_option (upd_target l ts a) (hp a))"
proof (induction ts arbitrary: hp lh)
  case Nil
  have "\<And>x. upd_target l [] a x = x" for a by (simp add: upd_target_def)
  then have "\<And>a. map_option (upd_target l [] a) (hp a) = hp a"
    by (simp add: option.map_ident_strong)
  with Nil show ?case by simp
next
  case (Cons t ts)
  from Cons.prems obtain ta th where t: "t = Some ta" and th: "hp ta = Some th" and ne: "ta \<noteq> l"
    by auto
  let ?lh1 = "lh \<lparr> atom := (atom lh) \<lparr> outgoing := outgoing (atom lh) @ [t] \<rparr> \<rparr>"
  let ?th1 = "th \<lparr> ref_count := ref_count th + 1 \<rparr>"
  let ?th2 = "?th1 \<lparr> atom := (atom ?th1) \<lparr> incoming := incoming (atom ?th1) @ [Some l] \<rparr> \<rparr>"
  let ?hp3 = "hp(l \<mapsto> ?lh1, ta \<mapsto> ?th2)"
  have step: "link_targets l hp (t # ts) = link_targets l ?hp3 ts"
    using Cons.prems(1) t th ne by (simp add: atom_retain_def)
  have l3: "?hp3 l = Some ?lh1" using ne by simp
  have live3: "\<forall>t \<in> set ts. \<exists>a. t = Some a \<and> ?hp3 a \<noteq> None"
  proof
    fix tb assume "tb \<in> set ts"
    with Cons.prems(3) obtain b where "tb = Some b" "hp b \<noteq> None" by auto
    then show "\<exists>a. tb = Some a \<and> ?hp3 a \<noteq> None" by simp
  qed
  have nl: "Some l \<notin> set ts" using Cons.prems(2) by simp
  from Cons.IH [OF l3 nl live3]
  obtain hp' where r: "link_targets l ?hp3 ts = Inr hp'"
    and l': "hp' l = Some (?lh1 \<lparr> atom := (atom ?lh1) \<lparr> outgoing := outgoing (atom ?lh1) @ ts \<rparr> \<rparr>)"
    and o': "\<forall>a. a \<noteq> l \<longrightarrow> hp' a = map_option (upd_target l ts a) (?hp3 a)"
    by blast
  have "hp' a = map_option (upd_target l (t # ts) a) (hp a)" if "a \<noteq> l" for a
  proof (cases "a = ta")
    case True
    then show ?thesis using o' that th t
      by (simp add: upd_target_def replicate_app_Cons_same)
  next
    case False
    then have "count_list (t # ts) (Some a) = count_list ts (Some a)" using t by simp
    then have "upd_target l (t # ts) a = upd_target l ts a"
      by (simp add: upd_target_def fun_eq_iff)
    then show ?thesis using o' that False by simp
  qed
  with r l' step show ?case by simp
qed

text \<open>
  Claim C3. For an AtomSpace and targets that are all allocated handles,
  \<^verbatim>\<open>atom_create_link\<close> (with a fresh block \<open>p\<close> for the new handle) returns the handle
  \<open>p\<close>, whose outgoing array is the argument array in order; every target has been
  retained once for each slot it occupies (the 32-bit count has grown by the number of
  occurrences) and has \<open>p\<close> appended to its incoming array once for each slot, so \<open>p\<close> is
  in the incoming array of every target.
\<close>

theorem atom_create_link_edges:
  assumes fresh: "hp p = None"
      and live: "\<forall>t \<in> set ts. \<exists>a. t = Some a \<and> hp a \<noteq> None"
  shows "\<exists>next' hp' sp' lh.
     atom_create_link p now next_id hp (Some sp) ty ts = Inr (Some p, next', hp', Some sp') \<and>
     hp' p = Some lh \<and> outgoing (atom lh) = ts \<and>
     (\<forall>a th. Some a \<in> set ts \<longrightarrow> hp a = Some th \<longrightarrow>
        (\<exists>th'. hp' a = Some th' \<and>
              ref_count th' = ref_count th + of_nat (count_list ts (Some a)) \<and>
              incoming (atom th') = incoming (atom th) @ replicate (count_list ts (Some a)) (Some p) \<and>
              Some p \<in> set (incoming (atom th'))))"
proof -
  let ?idv = "fst (generate_atom_id next_id)"
  let ?lh = "\<lparr> handle_id = ?idv, atom = new_atom ?idv ty None now, ref_count = 1 \<rparr>"
  let ?hp1 = "hp(p \<mapsto> ?lh)"
  obtain nx sp1 where cr: "atom_create p now next_id hp (Some sp) ty None = (Some p, nx, ?hp1, Some sp1)"
    by (simp add: atom_create_def generate_atom_id_def Let_def)
  have nl: "Some p \<notin> set ts" using fresh live by auto
  have l1: "?hp1 p = Some ?lh" by simp
  have live1: "\<forall>t \<in> set ts. \<exists>a. t = Some a \<and> ?hp1 a \<noteq> None"
  proof
    fix t assume "t \<in> set ts"
    with live obtain b where "t = Some b" "hp b \<noteq> None" by auto
    then show "\<exists>a. t = Some a \<and> ?hp1 a \<noteq> None" by auto
  qed
  from link_targets_ok [OF l1 nl live1]
  obtain hp' where r: "link_targets p ?hp1 ts = Inr hp'"
    and l': "hp' p = Some (?lh \<lparr> atom := (atom ?lh) \<lparr> outgoing := outgoing (atom ?lh) @ ts \<rparr> \<rparr>)"
    and o': "\<forall>a. a \<noteq> p \<longrightarrow> hp' a = map_option (upd_target p ts a) (?hp1 a)"
    by blast
  have res: "atom_create_link p now next_id hp (Some sp) ty ts = Inr (Some p, nx, hp', Some sp1)"
  proof (cases ts)
    case Nil
    with r have "hp' = ?hp1" by simp
    with Nil cr show ?thesis by (simp add: atom_create_link_def)
  next
    case (Cons t ts')
    with r cr show ?thesis by (simp add: atom_create_link_def)
  qed
  have out: "outgoing (atom (?lh \<lparr> atom := (atom ?lh) \<lparr> outgoing := outgoing (atom ?lh) @ ts \<rparr> \<rparr>)) = ts"
    by (simp add: new_atom_def)
  have tg: "\<exists>th'. hp' a = Some th' \<and>
              ref_count th' = ref_count th + of_nat (count_list ts (Some a)) \<and>
              incoming (atom th') = incoming (atom th) @ replicate (count_list ts (Some a)) (Some p) \<and>
              Some p \<in> set (incoming (atom th'))"
    if m: "Some a \<in> set ts" and h: "hp a = Some th" for a th
  proof -
    from m nl have ne: "a \<noteq> p" by auto
    with o' h have "hp' a = Some (upd_target p ts a th)" by simp
    moreover from m have "count_list ts (Some a) \<noteq> 0" by (simp add: count_list_0_iff)
    then obtain k where "count_list ts (Some a) = Suc k" by (cases "count_list ts (Some a)") auto
    ultimately show ?thesis by (simp add: upd_target_def)
  qed
  from res l' out tg show ?thesis by blast
qed

lemma demo_space_reached:
  "atom_create 10 1000 next_atom_id_init Map.empty (Some (atomspace_create 1))
       ATOM_TYPE_CONCEPT (Some ''A'')
     = (Some 10, 2,
        [10 \<mapsto> \<lparr> handle_id = 1, atom = new_atom 1 ATOM_TYPE_CONCEPT (Some ''A'') 1000,
                 ref_count = 1 \<rparr>],
        Some \<lparr> atoms = [Some 10], atom_capacity = 1024,
               lookup_table = hash_table_insert hash_table_create 1 (Some 10),
               total_atoms_created = 1, total_atoms_deleted = 0, space_node_id = 1 \<rparr>) \<and>
   atom_create_link 20 1000 2
       [10 \<mapsto> \<lparr> handle_id = 1, atom = new_atom 1 ATOM_TYPE_CONCEPT (Some ''A'') 1000,
                 ref_count = 1 \<rparr>]
       (Some \<lparr> atoms = [Some 10], atom_capacity = 1024,
               lookup_table = hash_table_insert hash_table_create 1 (Some 10),
               total_atoms_created = 1, total_atoms_deleted = 0, space_node_id = 1 \<rparr>)
       ATOM_TYPE_LINK [Some 10]
     = Inr (Some 20, 3, demo_heap, Some demo_space)"
  by (simp add: atom_create_link_def atom_create_def generate_atom_id_def atom_retain_def
        next_atom_id_init_def atomspace_create_def
        demo_heap_def demo_space_def demo_node_def demo_link_def new_atom_def fun_upd_twist)

theorem atom_create_link_edges_witness:
  "\<exists>next' hp' sp' lh.
     atom_create_link 30 1000 3 demo_heap (Some demo_space) ATOM_TYPE_LINK
         [Some 10, Some 20, Some 10] = Inr (Some 30, next', hp', Some sp') \<and>
     hp' 30 = Some lh \<and> outgoing (atom lh) = [Some 10, Some 20, Some 10] \<and>
     (\<forall>a th. Some a \<in> set [Some 10, Some 20, Some 10] \<longrightarrow> demo_heap a = Some th \<longrightarrow>
        (\<exists>th'. hp' a = Some th' \<and>
              ref_count th' = ref_count th + of_nat (count_list [Some 10, Some 20, Some 10] (Some a)) \<and>
              incoming (atom th') =
                incoming (atom th) @ replicate (count_list [Some 10, Some 20, Some 10] (Some a)) (Some 30) \<and>
              Some 30 \<in> set (incoming (atom th'))))"
proof -
  have fresh: "demo_heap 30 = None" by (simp add: demo_heap_def)
  have live: "\<forall>t \<in> set [Some 10, Some 20, Some 10]. \<exists>a. t = Some a \<and> demo_heap a \<noteq> None"
    by (simp add: demo_heap_def)
  show ?thesis by (rule atom_create_link_edges [where hp = demo_heap and p = 30, OF fresh live])
qed

subsection \<open>Ids\<close>

lemma ids_of_append: "ids_of hp (xs @ ys) = ids_of hp xs @ ids_of hp ys"
  by (induction hp xs rule: ids_of.induct) (auto split: option.splits)

lemma ids_of_upd: "Some p \<notin> set cells \<Longrightarrow> ids_of (hp(p \<mapsto> h)) cells = ids_of hp cells"
  by (induction hp cells rule: ids_of.induct) (auto split: option.splits)

lemma create_atoms_snoc:
  "create_atoms (reqs @ [(p, now, ty, nm)]) nx hp space =
     (case create_atoms reqs nx hp space of
        (nx1, hp1, space1) \<Rightarrow>
          (case atom_create p now nx1 hp1 space1 ty nm of (handle, r) \<Rightarrow> r))"
  by (induction reqs nx hp space rule: create_atoms.induct) (auto split: prod.splits)

lemma create_atoms_ids:
  "distinct (map fst reqs) \<Longrightarrow>
   \<exists>hp' sp'. create_atoms reqs 1 Map.empty (Some (atomspace_create nid)) =
       (of_nat (Suc (length reqs)), hp', Some sp') \<and>
     atoms sp' = map (Some \<circ> fst) reqs \<and>
     ids_of hp' (atoms sp') = map of_nat [1..<Suc (length reqs)]"
proof (induction reqs rule: rev_induct)
  case Nil
  then show ?case by (simp add: atomspace_create_def)
next
  case (snoc r reqs)
  obtain p now ty nm where r: "r = (p, now, ty, nm)" by (cases r) auto
  from snoc.prems have d: "distinct (map fst reqs)" and np: "p \<notin> fst ` set reqs"
    using r by auto
  from snoc.IH [OF d] obtain hp1 sp1 where
    c: "create_atoms reqs 1 Map.empty (Some (atomspace_create nid)) =
          (of_nat (Suc (length reqs)), hp1, Some sp1)"
    and a: "atoms sp1 = map (Some \<circ> fst) reqs"
    and i: "ids_of hp1 (atoms sp1) = map of_nat [1..<Suc (length reqs)]"
    by blast
  have notin: "Some p \<notin> set (atoms sp1)" using a np by auto
  show ?case
    using c a i notin r
    by (simp add: create_atoms_snoc atom_create_def generate_atom_id_def Let_def
          ids_of_append ids_of_upd)
qed

text \<open>
  Claim C5. Starting from the initial counter, a sequence of fewer than 2^64 atom
  creations into a new AtomSpace (each in a block of its own) gives the atoms, in creation
  order, the ids 1, 2, 3, ...: the ids are strictly increasing from 1, no two atoms of
  the AtomSpace share an id, and no atom has id 0.
\<close>

theorem atom_ids_increasing_unique:
  assumes "distinct (map fst reqs)" and "length reqs < 2 ^ 64"
  shows "\<exists>nx hp sp.
           create_atoms reqs next_atom_id_init Map.empty (Some (atomspace_create nid)) =
             (nx, hp, Some sp) \<and>
           length (atoms sp) = length reqs \<and>
           map unat (ids_of hp (atoms sp)) = [1..<Suc (length reqs)] \<and>
           sorted_wrt (<) (ids_of hp (atoms sp)) \<and>
           distinct (ids_of hp (atoms sp)) \<and>
           0 \<notin> set (ids_of hp (atoms sp))"
proof -
  from create_atoms_ids [OF assms(1), of nid] obtain hp sp where
    c: "create_atoms reqs next_atom_id_init Map.empty (Some (atomspace_create nid)) =
          (of_nat (Suc (length reqs)), hp, Some sp)"
    and a: "atoms sp = map (Some \<circ> fst) reqs"
    and i: "ids_of hp (atoms sp) = map of_nat [1..<Suc (length reqs)]"
    by (auto simp: next_atom_id_init_def)
  have u: "unat (of_nat k :: 64 word) = k" if "k \<in> set [1..<Suc (length reqs)]" for k
  proof -
    from that have "k \<le> length reqs" by auto
    with assms(2) have "k < 2 ^ 64" by linarith
    then show ?thesis by (simp add: unat_of_nat)
  qed
  have m: "map unat (ids_of hp (atoms sp)) = [1..<Suc (length reqs)]"
    unfolding i map_map by (rule map_idI) (use u in simp)
  have s: "sorted_wrt (<) (map unat (ids_of hp (atoms sp)))"
    unfolding m by (rule sorted_wrt_upt)
  have s': "sorted_wrt (<) (ids_of hp (atoms sp))"
    using s by (simp add: sorted_wrt_map flip: word_less_nat_alt)
  have d: "distinct (map unat (ids_of hp (atoms sp)))" unfolding m by (rule distinct_upt)
  have z: "0 \<notin> set (map unat (ids_of hp (atoms sp)))" unfolding m by auto
  have d': "distinct (ids_of hp (atoms sp))" using d by (simp add: distinct_map)
  have len: "length (atoms sp) = length reqs" using a by simp
  have nz: "0 \<notin> set (ids_of hp (atoms sp))"
  proof
    assume "0 \<in> set (ids_of hp (atoms sp))"
    then have "unat (0 :: 64 word) \<in> set (map unat (ids_of hp (atoms sp)))"
      by (metis image_eqI set_map)
    with z show False by simp
  qed
  from c len m s' d' nz show ?thesis by blast
qed

theorem atom_ids_increasing_unique_witness:
  "\<exists>nx hp sp.
     create_atoms [(10, 1000, ATOM_TYPE_CONCEPT, Some ''A''), (20, 1000, ATOM_TYPE_CONCEPT, Some ''B''),
                   (30, 1001, ATOM_TYPE_PREDICATE, None)]
         next_atom_id_init Map.empty (Some (atomspace_create 1)) = (nx, hp, Some sp) \<and>
     length (atoms sp) =
       length [(10 :: addr, 1000 :: 64 word, ATOM_TYPE_CONCEPT, Some ''A''),
               (20, 1000, ATOM_TYPE_CONCEPT, Some ''B''), (30, 1001, ATOM_TYPE_PREDICATE, None)] \<and>
     map unat (ids_of hp (atoms sp)) =
       [1..<Suc (length [(10 :: addr, 1000 :: 64 word, ATOM_TYPE_CONCEPT, Some ''A''),
                         (20, 1000, ATOM_TYPE_CONCEPT, Some ''B''),
                         (30, 1001, ATOM_TYPE_PREDICATE, None)])] \<and>
     sorted_wrt (<) (ids_of hp (atoms sp)) \<and>
     distinct (ids_of hp (atoms sp)) \<and>
     0 \<notin> set (ids_of hp (atoms sp))"
proof -
  have d: "distinct (map fst [(10 :: addr, 1000 :: 64 word, ATOM_TYPE_CONCEPT, Some ''A''),
               (20, 1000, ATOM_TYPE_CONCEPT, Some ''B''), (30, 1001, ATOM_TYPE_PREDICATE, None)])"
    by simp
  have l: "length [(10 :: addr, 1000 :: 64 word, ATOM_TYPE_CONCEPT, Some ''A''),
               (20, 1000, ATOM_TYPE_CONCEPT, Some ''B''), (30, 1001, ATOM_TYPE_PREDICATE, None)]
             < 2 ^ 64"
    by simp
  show ?thesis by (rule atom_ids_increasing_unique [OF d l])
qed

subsection \<open>Release\<close>

lemma same_edges_refl: "same_edges hp hp"
  by (simp add: same_edges_def)

lemma same_edges_trans: "same_edges hp hp1 \<Longrightarrow> same_edges hp1 hp2 \<Longrightarrow> same_edges hp hp2"
  unfolding same_edges_def by fastforce

lemma same_edges_ref_count:
  "hp a = Some h \<Longrightarrow> same_edges hp (hp(a \<mapsto> h \<lparr> ref_count := r \<rparr>))"
  by (simp add: same_edges_def)

lemma same_edges_free: "same_edges hp (hp(a := None))"
  by (simp add: same_edges_def)

lemma release_same_edges:
  "atom_release n hp handle = Some (Inr hp') \<Longrightarrow> same_edges hp hp'"
  "release_outgoing n hp a ts = Some (Inr hp') \<Longrightarrow> same_edges hp hp'"
proof (induction n hp handle and n hp a ts arbitrary: hp' and hp'
       rule: atom_release_release_outgoing.induct)
  case (1 hp handle)
  then show ?case by simp
next
  case (2 n hp)
  then show ?case by (simp add: same_edges_refl)
next
  case (3 n hp a)
  from "3.prems" obtain h where h: "hp a = Some h" by (auto split: option.splits)
  let ?h' = "h \<lparr> ref_count := ref_count h - 1 \<rparr>"
  let ?hp1 = "hp(a \<mapsto> ?h')"
  have e1: "same_edges hp ?hp1" using h by (rule same_edges_ref_count)
  show ?case
  proof (cases "ref_count ?h' = 0")
    case False
    with "3.prems" h have "hp' = ?hp1" by (simp add: Let_def)
    with e1 show ?thesis by (simp only:)
  next
    case True
    with "3.prems" h obtain hp2 where
      r: "release_outgoing n ?hp1 a (outgoing (atom ?h')) = Some (Inr hp2)"
      and f: "free_handle hp2 a = Inr hp'"
      by (auto simp: Let_def split: option.splits sum.splits)
    from "3.IH" [OF h refl refl True r] have e2: "same_edges ?hp1 hp2" .
    from f have "hp' = hp2(a := None)" by (auto simp: free_handle_def split: if_splits)
    then have e3: "same_edges hp2 hp'" by (simp add: same_edges_free)
    from e1 e2 e3 show ?thesis by (blast intro: same_edges_trans)
  qed
next
  case (4 n hp a)
  then show ?case by (auto simp: same_edges_refl split: if_splits)
next
  case (5 n hp a t ts)
  from "5.prems" have live: "hp a \<noteq> None" by (auto split: if_splits)
  with "5.prems" obtain hp1 where
    r1: "atom_release n hp t = Some (Inr hp1)"
    and r2: "release_outgoing n hp1 a ts = Some (Inr hp')"
    by (auto split: option.splits sum.splits if_splits)
  from "5.IH"(1) [OF live r1] have e1: "same_edges hp hp1" .
  from "5.IH"(2) [OF live r1 refl r2] have e2: "same_edges hp1 hp'" .
  from e1 e2 show ?case by (rule same_edges_trans)
qed

lemma demo_release:
  "atom_release (Suc (Suc 0)) demo_heap (Some 20) = Some (Inr [10 \<mapsto> demo_node \<lparr> ref_count := 1 \<rparr>])"
  by (simp add: demo_heap_def demo_node_def demo_link_def new_atom_def free_handle_def fun_upd_twist)

text \<open>
  Claim C1, as stated, fails. In the small AtomSpace the link (block 20, id 2, count 1)
  points to the concept (block 10), whose incoming array holds the link. Releasing the
  link frees it and drops the concept's count to 1, but the concept's incoming array
  still holds the freed handle, and a lookup of id 2 still returns it.
\<close>

theorem atom_release_counterexample:
  "atom_release (Suc (Suc 0)) demo_heap (Some 20) =
     Some (Inr [10 \<mapsto> demo_node \<lparr> ref_count := 1 \<rparr>]) \<and>
   incoming (atom (demo_node \<lparr> ref_count := 1 \<rparr>)) = [Some 20] \<and>
   atomspace_get_atom (Some demo_space) 2 = Some 20"
proof -
  have i: "incoming (atom (demo_node \<lparr> ref_count := 1 \<rparr>)) = [Some 20]"
    by (simp add: demo_node_def new_atom_def)
  have l: "atomspace_get_atom (Some demo_space) 2 = Some 20"
    by (simp add: demo_space_def atomspace_get_atom_def hash_table_lookup_def
          hash_table_insert_def hash_table_create_def HASH_TABLE_SIZE_def)
  from demo_release i l show ?thesis by blast
qed

lemma atom_release_frees:
  assumes "hp a = Some h" and "ref_count h = 1"
      and "atom_release fuel hp (Some a) = Some (Inr hp')"
  shows "hp' a = None \<and> same_edges hp hp'"
proof -
  from assms(3) obtain n where n: "fuel = Suc n" by (cases fuel) auto
  from assms n obtain hp2 where f: "free_handle hp2 a = Inr hp'"
    by (auto simp: Let_def split: option.splits sum.splits)
  then have "hp' a = None" by (auto simp: free_handle_def split: if_splits)
  with release_same_edges(1) [OF assms(3)] show ?thesis by simp
qed

lemma release_outgoing_returns:
  "hp a \<noteq> None \<Longrightarrow>
   (\<forall>t \<in> set ts. \<exists>b hb. t = Some b \<and> hp b = Some hb \<and> count_list ts t < unat (ref_count hb)) \<Longrightarrow>
   \<exists>hp'. release_outgoing (Suc n) hp a ts = Some (Inr hp') \<and>
     (\<forall>b. hp' b = map_option (released ts b) (hp b))"
proof (induction ts arbitrary: hp)
  case Nil
  have "\<And>b. map_option (released [] b) (hp b) = hp b"
    by (simp add: released_def option.map_ident_strong)
  with Nil show ?case by simp
next
  case (Cons t ts)
  from Cons.prems(2) obtain b hb where t: "t = Some b" and hb: "hp b = Some hb"
    and c: "count_list (t # ts) t < unat (ref_count hb)"
    by auto
  from c have big: "Suc (count_list ts t) < unat (ref_count hb)" by simp
  then have nz: "ref_count hb \<noteq> 0" by (auto simp: unat_eq_0)
  then have u: "unat (ref_count hb - 1) = unat (ref_count hb) - 1" by (rule unat_minus_one)
  with big have nz1: "ref_count hb - 1 \<noteq> 0" by (auto simp: unat_eq_0)
  let ?hp1 = "hp(b \<mapsto> hb \<lparr> ref_count := ref_count hb - 1 \<rparr>)"
  have r1: "atom_release (Suc n) hp t = Some (Inr ?hp1)"
    using t hb nz1 by (simp add: Let_def)
  have live1: "?hp1 a \<noteq> None" using Cons.prems(1) by simp
  have tg1: "\<forall>t' \<in> set ts. \<exists>b' hb'. t' = Some b' \<and> ?hp1 b' = Some hb' \<and>
               count_list ts t' < unat (ref_count hb')"
  proof
    fix t' assume m: "t' \<in> set ts"
    with Cons.prems(2) obtain b' hb' where t': "t' = Some b'" and hb': "hp b' = Some hb'"
      and c': "count_list (t # ts) t' < unat (ref_count hb')"
      by auto
    show "\<exists>b' hb'. t' = Some b' \<and> ?hp1 b' = Some hb' \<and> count_list ts t' < unat (ref_count hb')"
    proof (cases "b' = b")
      case True
      with t' t hb hb' big u show ?thesis by auto
    next
      case False
      with t' t hb' c' show ?thesis by auto
    qed
  qed
  from Cons.IH [OF live1 tg1] obtain hp' where
    r2: "release_outgoing (Suc n) ?hp1 a ts = Some (Inr hp')"
    and o: "\<forall>b'. hp' b' = map_option (released ts b') (?hp1 b')"
    by blast
  have "hp' b' = map_option (released (t # ts) b') (hp b')" for b'
  proof (cases "b' = b")
    case True
    then show ?thesis using o hb t by (simp add: released_def)
  next
    case False
    then have "released (t # ts) b' = released ts b'"
      using t by (simp add: released_def fun_eq_iff)
    with o False show ?thesis by simp
  qed
  moreover have "release_outgoing (Suc n) hp a (t # ts) = Some (Inr hp')"
    using Cons.prems(1) r1 r2 by (simp del: atom_release.simps)
  ultimately show ?case by blast
qed

lemma atom_release_link_returns:
  assumes h: "hp a = Some h" and one: "ref_count h = 1"
      and na: "Some a \<notin> set (outgoing (atom h))"
      and tg: "\<forall>t \<in> set (outgoing (atom h)). \<exists>b hb. t = Some b \<and> hp b = Some hb \<and>
                 count_list (outgoing (atom h)) t < unat (ref_count hb)"
  shows "\<exists>hp'. atom_release (Suc (Suc n)) hp (Some a) = Some (Inr hp') \<and> hp' a = None \<and>
           (\<forall>b. b \<noteq> a \<longrightarrow> hp' b = map_option (released (outgoing (atom h)) b) (hp b))"
proof -
  let ?h0 = "h \<lparr> ref_count := ref_count h - 1 \<rparr>"
  let ?hp1 = "hp(a \<mapsto> ?h0)"
  let ?ts = "outgoing (atom h)"
  have z: "ref_count ?h0 = 0" using one by simp
  have live: "?hp1 a \<noteq> None" by simp
  have tg1: "\<forall>t \<in> set ?ts. \<exists>b hb. t = Some b \<and> ?hp1 b = Some hb \<and>
               count_list ?ts t < unat (ref_count hb)"
  proof
    fix t assume m: "t \<in> set ?ts"
    with tg obtain b hb where "t = Some b" "hp b = Some hb" "count_list ?ts t < unat (ref_count hb)"
      by blast
    moreover from this m na have "b \<noteq> a" by auto
    ultimately show "\<exists>b hb. t = Some b \<and> ?hp1 b = Some hb \<and> count_list ?ts t < unat (ref_count hb)"
      by simp
  qed
  from release_outgoing_returns [OF live tg1, of n] obtain hp2 where
    r: "release_outgoing (Suc n) ?hp1 a ?ts = Some (Inr hp2)"
    and o: "\<forall>b. hp2 b = map_option (released ?ts b) (?hp1 b)"
    by blast
  from o have l2: "hp2 a \<noteq> None" by simp
  have "atom_release (Suc (Suc n)) hp (Some a) = Some (Inr (hp2(a := None)))"
    using h z r l2 by (simp add: Let_def free_handle_def del: release_outgoing.simps)
  moreover have "\<forall>b. b \<noteq> a \<longrightarrow> (hp2(a := None)) b = map_option (released ?ts b) (hp b)"
    using o by simp
  ultimately show ?thesis by simp
qed

text \<open>
  Claim C1, amended. Let \<^verbatim>\<open>atom_release\<close> take the count of an allocated handle from 1
  to 0. Whenever the call returns, the handle has been freed, and every handle that is
  still allocated has the id, the outgoing array and the incoming array it had before:
  the reclamation removes nothing from any incoming array. When the targets are allocated
  handles other than the handle itself, each with a count above the number of slots it
  occupies (the AtomSpace holds its own reference to each), the call does return, with
  each target's count decreased by the number of its slots and nothing else changed.
  (The AtomSpace is not an argument of \<^verbatim>\<open>atom_release\<close>; its lookup table keeps the
  entry for the freed handle.)
\<close>

theorem atom_release_reclaims:
  assumes "hp a = Some h" and "ref_count h = 1"
  shows "(\<forall>fuel hp'. atom_release fuel hp (Some a) = Some (Inr hp') \<longrightarrow>
            hp' a = None \<and> same_edges hp hp') \<and>
         (Some a \<notin> set (outgoing (atom h)) \<and>
          (\<forall>t \<in> set (outgoing (atom h)). \<exists>b hb. t = Some b \<and> hp b = Some hb \<and>
              count_list (outgoing (atom h)) t < unat (ref_count hb)) \<longrightarrow>
            (\<exists>hp'. atom_release (Suc (Suc n)) hp (Some a) = Some (Inr hp') \<and> hp' a = None \<and>
               (\<forall>b. b \<noteq> a \<longrightarrow> hp' b = map_option (released (outgoing (atom h)) b) (hp b))))"
proof (intro conjI allI impI)
  fix fuel hp'
  assume "atom_release fuel hp (Some a) = Some (Inr hp')"
  with assms show "hp' a = None" and "same_edges hp hp'"
    by (auto dest: atom_release_frees)
next
  assume c: "Some a \<notin> set (outgoing (atom h)) \<and>
          (\<forall>t \<in> set (outgoing (atom h)). \<exists>b hb. t = Some b \<and> hp b = Some hb \<and>
              count_list (outgoing (atom h)) t < unat (ref_count hb))"
  from c have na: "Some a \<notin> set (outgoing (atom h))" by (rule conjunct1)
  from c have tg: "\<forall>t \<in> set (outgoing (atom h)). \<exists>b hb. t = Some b \<and> hp b = Some hb \<and>
              count_list (outgoing (atom h)) t < unat (ref_count hb)" by (rule conjunct2)
  from atom_release_link_returns [OF assms na tg]
  show "\<exists>hp'. atom_release (Suc (Suc n)) hp (Some a) = Some (Inr hp') \<and> hp' a = None \<and>
               (\<forall>b. b \<noteq> a \<longrightarrow> hp' b = map_option (released (outgoing (atom h)) b) (hp b))" .
qed

theorem atom_release_reclaims_witness:
  "([10 \<mapsto> demo_node \<lparr> ref_count := 1 \<rparr>] (20 :: addr) = None \<and>
    same_edges demo_heap [10 \<mapsto> demo_node \<lparr> ref_count := 1 \<rparr>]) \<and>
   (\<exists>hp'. atom_release (Suc (Suc 0)) demo_heap (Some 20) = Some (Inr hp') \<and> hp' 20 = None \<and>
      (\<forall>b. b \<noteq> 20 \<longrightarrow> hp' b = map_option (released (outgoing (atom demo_link)) b) (demo_heap b)))"
proof -
  have c: "ref_count demo_link = 1" by (simp add: demo_link_def)
  note th = atom_release_reclaims [where hp = demo_heap and a = 20 and h = demo_link and n = 0,
              OF demo_heap_link c]
  have na: "Some 20 \<notin> set (outgoing (atom demo_link))" by (simp add: demo_link_def)
  have tg: "\<forall>t \<in> set (outgoing (atom demo_link)). \<exists>b hb. t = Some b \<and> demo_heap b = Some hb \<and>
              count_list (outgoing (atom demo_link)) t < unat (ref_count hb)"
    by (simp add: demo_link_def demo_heap_def demo_node_def)
  from th demo_release have "[10 \<mapsto> demo_node \<lparr> ref_count := 1 \<rparr>] (20 :: addr) = None \<and>
    same_edges demo_heap [10 \<mapsto> demo_node \<lparr> ref_count := 1 \<rparr>]"
    by blast
  moreover from th na tg have "\<exists>hp'. atom_release (Suc (Suc 0)) demo_heap (Some 20) = Some (Inr hp') \<and>
      hp' 20 = None \<and>
      (\<forall>b. b \<noteq> 20 \<longrightarrow> hp' b = map_option (released (outgoing (atom demo_link)) b) (demo_heap b))"
    by blast
  ultimately show ?thesis by (rule conjI)
qed

subsection \<open>Queries\<close>

lemma count_matches_ok:
  "(\<forall>x \<in> set cells. \<forall>a. x = Some a \<longrightarrow> hp a \<noteq> None) \<Longrightarrow>
   count_matches test hp cells m = Inr (m + length (filter (cell_matches test hp) cells))"
proof (induction cells arbitrary: m)
  case Nil
  then show ?case by simp
next
  case (Cons x cells)
  show ?case
  proof (cases x)
    case None
    with Cons show ?thesis by (simp add: cell_matches_def)
  next
    case (Some a)
    with Cons.prems obtain h where h: "hp a = Some h" by auto
    with Some Cons show ?thesis by (simp add: cell_matches_def)
  qed
qed

lemma collect_matches_ok:
  assumes inv: "\<And>h r. test (h \<lparr> ref_count := r \<rparr>) = test h"
  shows "(\<forall>x \<in> set cells. \<forall>a. x = Some a \<longrightarrow> hp a \<noteq> None) \<Longrightarrow>
   \<exists>hp'. collect_matches test hp cells res = Inr (res @ filter (cell_matches test hp) cells, hp') \<and>
     (\<forall>a. hp' a = map_option (retained (filter (cell_matches test hp) cells) a) (hp a))"
proof (induction cells arbitrary: hp res)
  case Nil
  have "\<And>a. map_option (retained [] a) (hp a) = hp a"
    by (simp add: retained_def option.map_ident_strong)
  then show ?case by simp
next
  case (Cons x cells)
  show ?case
  proof (cases x)
    case None
    have "\<forall>x \<in> set cells. \<forall>a. x = Some a \<longrightarrow> hp a \<noteq> None" using Cons.prems by simp
    from Cons.IH [OF this, of res] None show ?thesis by (simp add: cell_matches_def)
  next
    case (Some a)
    with Cons.prems obtain h where h: "hp a = Some h" by auto
    have live: "\<forall>x \<in> set cells. \<forall>a. x = Some a \<longrightarrow> hp a \<noteq> None" using Cons.prems by simp
    show ?thesis
    proof (cases "test h")
      case False
      from Cons.IH [OF live, of res] Some h False show ?thesis by (simp add: cell_matches_def)
    next
      case True
      let ?hp1 = "hp(a \<mapsto> h \<lparr> ref_count := ref_count h + 1 \<rparr>)"
      have same: "cell_matches test ?hp1 = cell_matches test hp"
        using h inv by (auto simp: cell_matches_def fun_eq_iff split: option.splits)
      have live1: "\<forall>x \<in> set cells. \<forall>b. x = Some b \<longrightarrow> ?hp1 b \<noteq> None" using live by simp
      from Cons.IH [OF live1, of "res @ [Some a]", unfolded same]
      obtain hp' where r: "collect_matches test ?hp1 cells (res @ [Some a]) =
             Inr ((res @ [Some a]) @ filter (cell_matches test hp) cells, hp')"
        and o: "\<forall>b. hp' b = map_option (retained (filter (cell_matches test hp) cells) b) (?hp1 b)"
        by blast
      have m: "cell_matches test hp x" using Some h True by (simp add: cell_matches_def)
      have "hp' b = map_option (retained (filter (cell_matches test hp) (x # cells)) b) (hp b)" for b
      proof (cases "b = a")
        case True
        then show ?thesis using o h m Some by (simp add: retained_def)
      next
        case False
        then have "retained (filter (cell_matches test hp) (x # cells)) b =
                   retained (filter (cell_matches test hp) cells) b"
          using m Some by (simp add: retained_def fun_eq_iff)
        then show ?thesis using o False by simp
      qed
      moreover have "collect_matches test hp (x # cells) res =
            Inr (res @ filter (cell_matches test hp) (x # cells), hp')"
        using r Some h True m by (simp add: atom_retain_def)
      ultimately show ?thesis by blast
    qed
  qed
qed

lemma count_list_distinct:
  "distinct xs \<Longrightarrow> count_list xs x = (if x \<in> set xs then 1 else 0)"
  by (induction xs) auto

lemma get_atoms_matching_ok:
  assumes inv: "\<And>h r. test (h \<lparr> ref_count := r \<rparr>) = test h"
      and live: "\<forall>x \<in> set (atoms sp). \<forall>a. x = Some a \<longrightarrow> hp a \<noteq> None"
      and dist: "distinct (atoms sp)"
  shows "\<exists>hp'. get_atoms_matching test hp sp =
            Inr (Some (filter (cell_matches test hp) (atoms sp),
                       length (filter (cell_matches test hp) (atoms sp))), hp') \<and>
          (\<forall>a. hp' a = map_option
             (\<lambda>h. h \<lparr> ref_count := ref_count h +
                     (if Some a \<in> set (filter (cell_matches test hp) (atoms sp)) then 1 else 0) \<rparr>)
             (hp a))"
proof -
  let ?res = "filter (cell_matches test hp) (atoms sp)"
  have c: "count_matches test hp (atoms sp) 0 = Inr (length ?res)"
    using count_matches_ok [OF live, of test 0] by simp
  from collect_matches_ok [of test "atoms sp" hp "[]", OF inv live]
  obtain hp' where r: "collect_matches test hp (atoms sp) [] = Inr (?res, hp')"
    and o: "\<forall>a. hp' a = map_option (retained ?res a) (hp a)"
    by auto
  have d: "distinct ?res" using dist by simp
  have "retained ?res a = (\<lambda>h. h \<lparr> ref_count := ref_count h + (if Some a \<in> set ?res then 1 else 0) \<rparr>)" for a
    using count_list_distinct [OF d, of "Some a"] by (auto simp: retained_def fun_eq_iff)
  with o have o': "\<forall>a. hp' a = map_option
      (\<lambda>h. h \<lparr> ref_count := ref_count h + (if Some a \<in> set ?res then 1 else 0) \<rparr>) (hp a)"
    by simp
  from c r have "get_atoms_matching test hp sp = Inr (Some (?res, length ?res), hp')"
    by (simp add: get_atoms_matching_def)
  with o' show ?thesis by blast
qed

lemma get_atoms_matching_selected:
  assumes inv: "\<And>h r. test (h \<lparr> ref_count := r \<rparr>) = test h"
      and sel: "\<And>h. test h = sel h"
      and live: "\<forall>x \<in> set (atoms sp). \<forall>a. x = Some a \<longrightarrow> hp a \<noteq> None"
      and dist: "distinct (atoms sp)"
  shows "\<exists>hp'. get_atoms_matching test hp sp =
            Inr (Some (filter (\<lambda>cell. \<exists>a h. cell = Some a \<and> hp a = Some h \<and> sel h) (atoms sp),
                       length (filter (\<lambda>cell. \<exists>a h. cell = Some a \<and> hp a = Some h \<and> sel h)
                                 (atoms sp))), hp') \<and>
          (\<forall>a. hp' a = map_option
             (\<lambda>h. h \<lparr> ref_count := ref_count h +
                     (if Some a \<in> set (atoms sp) \<and> sel h then 1 else 0) \<rparr>)
             (hp a))"
proof -
  have cm: "cell_matches test hp = (\<lambda>cell. \<exists>a h. cell = Some a \<and> hp a = Some h \<and> sel h)"
    by (auto simp: cell_matches_def fun_eq_iff sel split: option.splits)
  from get_atoms_matching_ok [OF inv live dist] obtain hp' where
    r: "get_atoms_matching test hp sp =
          Inr (Some (filter (cell_matches test hp) (atoms sp),
                     length (filter (cell_matches test hp) (atoms sp))), hp')"
    and o: "\<forall>a. hp' a = map_option
             (\<lambda>h. h \<lparr> ref_count := ref_count h +
                     (if Some a \<in> set (filter (cell_matches test hp) (atoms sp)) then 1 else 0) \<rparr>)
             (hp a)"
    by blast
  have "hp' a = map_option
             (\<lambda>h. h \<lparr> ref_count := ref_count h +
                     (if Some a \<in> set (atoms sp) \<and> sel h then 1 else 0) \<rparr>)
             (hp a)" for a
  proof (cases "hp a")
    case None
    with o show ?thesis by simp
  next
    case (Some h)
    have "Some a \<in> set (filter (cell_matches test hp) (atoms sp)) \<longleftrightarrow>
            Some a \<in> set (atoms sp) \<and> sel h"
      using Some by (auto simp: cm)
    with o Some show ?thesis by simp
  qed
  with r cm show ?thesis by simp
qed

text \<open>
  Claim C4. On an AtomSpace whose cells are distinct and refer to allocated handles,
  \<^verbatim>\<open>atomspace_get_atoms_by_type\<close> returns exactly the cells of the \<^verbatim>\<open>atoms\<close> array
  whose atom has the given type, and \<^verbatim>\<open>atomspace_get_atoms_by_name\<close> exactly the cells
  whose atom has a name equal to the given one, in the order of the array, with
  \<^verbatim>\<open>*count\<close> set to their number; the count of every such handle has grown by exactly
  one and no other handle has changed.
\<close>

theorem queries_filter_in_order:
  assumes live: "\<forall>x \<in> set (atoms sp). \<forall>a. x = Some a \<longrightarrow> hp a \<noteq> None"
      and dist: "distinct (atoms sp)"
  shows "(\<exists>hp'. atomspace_get_atoms_by_type hp (Some sp) ty True =
            Inr (Some (filter (\<lambda>cell. \<exists>a h. cell = Some a \<and> hp a = Some h \<and>
                                        atom_type (atom h) = ty) (atoms sp),
                       length (filter (\<lambda>cell. \<exists>a h. cell = Some a \<and> hp a = Some h \<and>
                                        atom_type (atom h) = ty) (atoms sp))), hp') \<and>
          (\<forall>a. hp' a = map_option
             (\<lambda>h. h \<lparr> ref_count := ref_count h +
                     (if Some a \<in> set (atoms sp) \<and> atom_type (atom h) = ty then 1 else 0) \<rparr>)
             (hp a))) \<and>
         (\<exists>hp'. atomspace_get_atoms_by_name hp (Some sp) (Some nm) True =
            Inr (Some (filter (\<lambda>cell. \<exists>a h. cell = Some a \<and> hp a = Some h \<and>
                                        name (atom h) = Some nm) (atoms sp),
                       length (filter (\<lambda>cell. \<exists>a h. cell = Some a \<and> hp a = Some h \<and>
                                        name (atom h) = Some nm) (atoms sp))), hp') \<and>
          (\<forall>a. hp' a = map_option
             (\<lambda>h. h \<lparr> ref_count := ref_count h +
                     (if Some a \<in> set (atoms sp) \<and> name (atom h) = Some nm then 1 else 0) \<rparr>)
             (hp a)))"
proof -
  have t: "\<And>h r. type_test ty (h \<lparr> ref_count := r \<rparr>) = type_test ty h"
    by (simp add: type_test_def)
  have ts: "\<And>h. type_test ty h = (atom_type (atom h) = ty)"
    by (simp add: type_test_def)
  have n: "\<And>h r. name_test nm (h \<lparr> ref_count := r \<rparr>) = name_test nm h"
    by (simp add: name_test_def)
  have ns: "\<And>h. name_test nm h = (name (atom h) = Some nm)"
    by (simp add: name_test_def split: option.splits)
  from get_atoms_matching_selected [of "type_test ty" "\<lambda>h. atom_type (atom h) = ty", OF t ts live dist]
       get_atoms_matching_selected [of "name_test nm" "\<lambda>h. name (atom h) = Some nm", OF n ns live dist]
  show ?thesis
    by (simp add: atomspace_get_atoms_by_type_def atomspace_get_atoms_by_name_def)
qed

text \<open>
  In the small AtomSpace the concept \<open>A\<close> (block 10) is the one atom of type Concept and
  the one atom named \<open>A\<close>: each query returns the one cell \<open>Some 10\<close> with count 1,
  takes the concept's reference count from 2 to 3 and leaves the link alone.
\<close>

theorem queries_filter_in_order_witness:
  "(\<exists>hp'. atomspace_get_atoms_by_type demo_heap (Some demo_space) ATOM_TYPE_CONCEPT True =
      Inr (Some ([Some 10], 1), hp') \<and>
      hp' 10 = Some (demo_node \<lparr> ref_count := 3 \<rparr>) \<and> hp' 20 = Some demo_link) \<and>
   (\<exists>hp'. atomspace_get_atoms_by_name demo_heap (Some demo_space) (Some ''A'') True =
      Inr (Some ([Some 10], 1), hp') \<and>
      hp' 10 = Some (demo_node \<lparr> ref_count := 3 \<rparr>) \<and> hp' 20 = Some demo_link)"
proof -
  have live: "\<forall>x \<in> set (atoms demo_space). \<forall>a. x = Some a \<longrightarrow> demo_heap a \<noteq> None"
    by (simp add: demo_space_def demo_heap_def)
  have dist: "distinct (atoms demo_space)" by (simp add: demo_space_def)
  note th = queries_filter_in_order [where hp = demo_heap and sp = demo_space
              and ty = ATOM_TYPE_CONCEPT and nm = "''A''", OF live dist]
  have ft: "filter (\<lambda>cell. \<exists>a h. cell = Some a \<and> demo_heap a = Some h \<and>
                     atom_type (atom h) = ATOM_TYPE_CONCEPT) (atoms demo_space) = [Some 10]"
    by (simp add: demo_space_def demo_heap_def demo_node_def demo_link_def new_atom_def)
  have fn: "filter (\<lambda>cell. \<exists>a h. cell = Some a \<and> demo_heap a = Some h \<and>
                     name (atom h) = Some ''A'') (atoms demo_space) = [Some 10]"
    by (simp add: demo_space_def demo_heap_def demo_node_def demo_link_def new_atom_def)
  from th obtain hp1 where
    r1: "atomspace_get_atoms_by_type demo_heap (Some demo_space) ATOM_TYPE_CONCEPT True =
           Inr (Some ([Some 10], 1), hp1)"
    and o1: "\<forall>a. hp1 a = map_option
             (\<lambda>h. h \<lparr> ref_count := ref_count h +
                     (if Some a \<in> set (atoms demo_space) \<and> atom_type (atom h) = ATOM_TYPE_CONCEPT
                      then 1 else 0) \<rparr>)
             (demo_heap a)"
    unfolding ft by auto
  from th obtain hp2 where
    r2: "atomspace_get_atoms_by_name demo_heap (Some demo_space) (Some ''A'') True =
           Inr (Some ([Some 10], 1), hp2)"
    and o2: "\<forall>a. hp2 a = map_option
             (\<lambda>h. h \<lparr> ref_count := ref_count h +
                     (if Some a \<in> set (atoms demo_space) \<and> name (atom h) = Some ''A''
                      then 1 else 0) \<rparr>)
             (demo_heap a)"
    unfolding fn by auto
  have a1: "hp1 10 = Some (demo_node \<lparr> ref_count := 3 \<rparr>)" and b1: "hp1 20 = Some demo_link"
    using o1 by (simp_all add: demo_space_def demo_heap_def demo_node_def demo_link_def new_atom_def)
  have a2: "hp2 10 = Some (demo_node \<lparr> ref_count := 3 \<rparr>)" and b2: "hp2 20 = Some demo_link"
    using o2 by (simp_all add: demo_space_def demo_heap_def demo_node_def demo_link_def new_atom_def)
  from r1 a1 b1 r2 a2 b2 show ?thesis by blast
qed

section \<open>Properties of the distributed primitives\<close>

subsection \<open>Heartbeats\<close>

lemma heartbeat_update_miss:
  "src \<notin> node_id ` set ns \<Longrightarrow> heartbeat_update ns src ts = ns"
  by (induction ns) auto

lemma heartbeat_update_hit:
  "src \<notin> node_id ` set pre \<Longrightarrow> node_id n = src \<Longrightarrow>
   heartbeat_update (pre @ n # post) src ts =
     pre @ n \<lparr> last_heartbeat := ts, is_active := True \<rparr> # post"
  by (induction pre) auto

text \<open>
  Claim C9. When the running message handler processes a Heartbeat message whose source
  id is in the node table, the first entry with that id gets the message's timestamp as
  \<^verbatim>\<open>last_heartbeat\<close> and \<^verbatim>\<open>is_active = true\<close>, the rest of the context is unchanged and
  no callback is called; when the source id is not in the table, the context is
  unchanged and no callback is called.
\<close>

theorem heartbeat_marks_source_node:
  assumes "msg_type msg = MSG_TYPE_HEARTBEAT" and "running ctx"
  shows "(source_node msg \<in> node_id ` set (nodes ctx) \<longrightarrow>
           (\<exists>pre n post. nodes ctx = pre @ n # post \<and> node_id n = source_node msg \<and>
              source_node msg \<notin> node_id ` set pre \<and>
              message_handler_thread_func ctx [Some msg] =
                (ctx \<lparr> nodes := pre @ n \<lparr> last_heartbeat := timestamp msg, is_active := True \<rparr> # post \<rparr>,
                 []))) \<and>
         (source_node msg \<notin> node_id ` set (nodes ctx) \<longrightarrow>
            message_handler_thread_func ctx [Some msg] = (ctx, []))"
proof (intro conjI impI)
  assume "source_node msg \<in> node_id ` set (nodes ctx)"
  then have "\<exists>x \<in> set (nodes ctx). node_id x = source_node msg" by auto
  from split_list_first_prop [OF this] obtain pre n post where
    d: "nodes ctx = pre @ n # post" and i: "node_id n = source_node msg"
    and f: "\<forall>y \<in> set pre. node_id y \<noteq> source_node msg"
    by blast
  from f have f': "source_node msg \<notin> node_id ` set pre" by auto
  have "message_handler_thread_func ctx [Some msg] =
          (ctx \<lparr> nodes := pre @ n \<lparr> last_heartbeat := timestamp msg, is_active := True \<rparr> # post \<rparr>, [])"
    using assms d heartbeat_update_hit [OF f' i, of post "timestamp msg"]
    by (simp add: message_handler_switch_def)
  with d i f' show "\<exists>pre n post. nodes ctx = pre @ n # post \<and> node_id n = source_node msg \<and>
              source_node msg \<notin> node_id ` set pre \<and>
              message_handler_thread_func ctx [Some msg] =
                (ctx \<lparr> nodes := pre @ n \<lparr> last_heartbeat := timestamp msg, is_active := True \<rparr> # post \<rparr>,
                 [])"
    by blast
next
  assume "source_node msg \<notin> node_id ` set (nodes ctx)"
  with assms show "message_handler_thread_func ctx [Some msg] = (ctx, [])"
    by (simp add: message_handler_switch_def heartbeat_update_miss)
qed

theorem heartbeat_marks_source_node_witness:
  "(\<exists>pre n post. nodes demo_ctx = pre @ n # post \<and> node_id n = source_node (heartbeat_msg 3 777) \<and>
      source_node (heartbeat_msg 3 777) \<notin> node_id ` set pre \<and>
      message_handler_thread_func demo_ctx [Some (heartbeat_msg 3 777)] =
        (demo_ctx \<lparr> nodes := pre @ n \<lparr> last_heartbeat := timestamp (heartbeat_msg 3 777),
                                         is_active := True \<rparr> # post \<rparr>, [])) \<and>
   message_handler_thread_func demo_ctx [Some (heartbeat_msg 9 777)] = (demo_ctx, [])"
proof -
  have r: "running demo_ctx" by (simp add: demo_ctx_def)
  have t3: "msg_type (heartbeat_msg 3 777) = MSG_TYPE_HEARTBEAT" by (simp add: heartbeat_msg_def)
  have t9: "msg_type (heartbeat_msg 9 777) = MSG_TYPE_HEARTBEAT" by (simp add: heartbeat_msg_def)
  have known: "source_node (heartbeat_msg 3 777) \<in> node_id ` set (nodes demo_ctx)"
    by (simp add: heartbeat_msg_def demo_ctx_def)
  have unknown: "source_node (heartbeat_msg 9 777) \<notin> node_id ` set (nodes demo_ctx)"
    by (simp add: heartbeat_msg_def demo_ctx_def)
  from heartbeat_marks_source_node [OF t3 r] known
       heartbeat_marks_source_node [OF t9 r] unknown
  show ?thesis by blast
qed

subsection \<open>Message queues\<close>

lemma scast_minus_one: "(scast (x :: 32 word) :: 64 word) - 1 = word_of_int (sint x - 1)"
  by simp

lemma ucast_long_to_int:
  "(ucast (word_of_int (sint (x :: 32 word) - 1) :: 64 word) :: 32 word) = word_of_int (sint x - 1)"
  by (rule ucast_down_wi) (simp add: is_down)

lemma word_of_int_minus_one: "(word_of_int (sint (x :: 32 word) - 1) :: 32 word) = x - 1"
  by simp

lemma long_to_int_priority:
  "(ucast ((scast (x :: 32 word) :: 64 word) - 1) :: 32 word) = x - 1"
  by (simp only: scast_minus_one ucast_long_to_int word_of_int_minus_one)

lemma send_all_kernel:
  "send_all mq msgs = Some mq' \<Longrightarrow>
   q_messages (mq_kernel mq') = q_messages (mq_kernel mq) @ map (\<lambda>(d, p). (scast (p + 1), d)) msgs \<and>
   (\<forall>(d, p) \<in> set msgs. length d \<le> 65536)"
proof (induction msgs arbitrary: mq)
  case Nil
  then show ?case by simp
next
  case (Cons m msgs)
  obtain d p where m: "m = (d, p)" by (cases m) auto
  from Cons.prems m obtain mq1 where
    s: "message_queue_send (Some mq) (Some d) p = Inr (0, Some mq1)"
    and r: "send_all mq1 msgs = Some mq'"
    by (auto split: sum.splits option.splits if_splits prod.splits)
  from s have k: "q_messages (mq_kernel mq1) = q_messages (mq_kernel mq) @ [(scast (p + 1), d)]"
    and l: "length d \<le> 65536"
    by (auto simp: message_queue_send_def msgsnd_def split: if_splits)
  from Cons.IH [OF r] k l m show ?case by simp
qed

lemma receive_all_kernel:
  "q_messages (mq_kernel mq) = map (\<lambda>(d, p). (scast (p + 1), d)) msgs @ rest \<Longrightarrow>
   (\<forall>(d, p) \<in> set msgs. 0 < length d \<and> length d \<le> bufsize \<and> length d \<le> 65536) \<Longrightarrow>
   receive_all mq (length msgs) bufsize = Some msgs"
proof (induction msgs arbitrary: mq)
  case Nil
  then show ?case by simp
next
  case (Cons m msgs)
  obtain d p where m: "m = (d, p)" by (cases m) auto
  let ?mq1 = "mq \<lparr> mq_kernel := (mq_kernel mq) \<lparr> q_messages := map (\<lambda>(d, p). (scast (p + 1), d)) msgs @ rest \<rparr> \<rparr>"
  have r: "message_queue_receive (Some mq) True bufsize True 0 =
             Returns (int (length d)) (Some d) (Some p) (Some ?mq1)"
    using Cons.prems m long_to_int_priority [of "p + 1"]
    by (simp add: message_queue_receive_def msgrcv_def)
  have k: "q_messages (mq_kernel ?mq1) = map (\<lambda>(d, p). (scast (p + 1), d)) msgs @ rest" by simp
  have b: "\<forall>(d, p) \<in> set msgs. 0 < length d \<and> length d \<le> bufsize \<and> length d \<le> 65536"
    using Cons.prems(2) by simp
  from Cons.IH [OF k b] r m Cons.prems(2) show ?case by simp
qed

text \<open>
  A send with priority \<^verbatim>\<open>INT_MAX\<close> or with a negative priority gives the kernel a type
  that is not positive, and returns -1 with the queue unchanged.
\<close>

lemma send_without_positive_type_fails:
  assumes "priority = 2147483647 \<or> sint priority < 0"
      and "length bytes \<le> max_message_size mq" and "length bytes \<le> 65536"
  shows "message_queue_send (Some mq) (Some bytes) priority = Inr (- 1, Some mq)"
proof -
  have "sint (scast (priority + 1) :: 64 word) = sint (priority + 1)"
    by (rule sint_up_scast) (simp add: is_up)
  moreover have "sint (priority + 1) < 1"
  proof (cases "priority = 2147483647")
    case True
    then show ?thesis by simp
  next
    case False
    with assms(1) have n: "sint priority < 0" by simp
    have "sint (priority + 1) = signed_take_bit 31 (sint priority + 1)"
      by (simp add: sint_word_ariths)
    also have "\<dots> = sint priority + 1"
      using n sint_ge [of priority] by (intro signed_take_bit_int_eq_self) simp_all
    finally show ?thesis using n by simp
  qed
  ultimately show ?thesis
    using assms(2,3) by (simp add: message_queue_send_def msgsnd_def)
qed

text \<open>
  Claim C6, as stated, fails. A message of priority 1 is sent, then a message of
  priority 5; the two receives hand back the message of priority 1 first.
\<close>

theorem queue_priority_counterexample:
  "send_then_receive demo_queue [([1], 1), ([2], 5)] 65536 = Some [([1], 1), ([2], 5)]"
  by (simp add: send_then_receive_def demo_queue_def message_queue_send_def
        message_queue_receive_def msgsnd_def msgrcv_def queue_bytes_def)

text \<open>
  Claim C6, amended. On a queue that starts empty, after a sequence of
  \<^verbatim>\<open>message_queue_send\<close> calls that all succeed (with non-empty messages that fit the
  receive buffer), as many \<^verbatim>\<open>message_queue_receive\<close> calls hand back the messages in the
  order in which they were sent, whatever their priorities, each with the priority it
  was sent with.
\<close>

theorem queue_delivers_in_send_order:
  assumes "q_messages (mq_kernel mq) = []"
      and "send_all mq msgs = Some mq'"
      and "\<forall>(d, p) \<in> set msgs. 0 < length d \<and> length d \<le> bufsize"
  shows "send_then_receive mq msgs bufsize = Some msgs"
proof -
  from send_all_kernel [OF assms(2)] assms(1)
  have k: "q_messages (mq_kernel mq') = map (\<lambda>(d, p). (scast (p + 1), d)) msgs @ []"
    and l: "\<forall>(d, p) \<in> set msgs. length d \<le> 65536"
    by auto
  from l assms(3)
  have b: "\<forall>(d, p) \<in> set msgs. 0 < length d \<and> length d \<le> bufsize \<and> length d \<le> 65536"
    by auto
  from receive_all_kernel [OF k b] assms(2) show ?thesis
    by (simp add: send_then_receive_def)
qed

theorem queue_delivers_in_send_order_witness:
  "send_then_receive demo_queue [([7], 0), ([8], 0), ([9, 9], 3)] 65536 =
     Some [([7], 0), ([8], 0), ([9, 9], 3)]"
proof -
  have e: "q_messages (mq_kernel demo_queue) = []" by (simp add: demo_queue_def)
  have s: "send_all demo_queue [([7], 0), ([8], 0), ([9, 9], 3)] =
             Some (demo_queue \<lparr> mq_kernel := (mq_kernel demo_queue)
                     \<lparr> q_messages := [(1, [7]), (1, [8]), (4, [9, 9])] \<rparr> \<rparr>)"
    by (simp add: demo_queue_def message_queue_send_def msgsnd_def queue_bytes_def)
  have b: "\<forall>(d, p) \<in> set [([7 :: byte], 0 :: 32 word), ([8], 0), ([9, 9], 3)].
             0 < length d \<and> length d \<le> 65536"
    by simp
  show ?thesis by (rule queue_delivers_in_send_order [OF e s b])
qed

subsection \<open>Consensus\<close>

text \<open>
  Claim C8 does not hold of the code: \<^verbatim>\<open>consensus_vote\<close> with an accept vote on a new
  record returns 0 and leaves the record in phase Propose with no vote recorded.
\<close>

theorem consensus_vote_changes_nothing:
  "consensus_vote ctx (consensus_create now d r) True = (0, consensus_create now d r) \<and>
   phase (snd (consensus_vote ctx (consensus_create now d r) True)) = CONSENSUS_PROPOSE \<and>
   vote_count (snd (consensus_vote ctx (consensus_create now d r) True)) = 0 \<and>
   voted_nodes (snd (consensus_vote ctx (consensus_create now d r) True)) = replicate r 0"
  by (simp add: consensus_vote_def consensus_create_def)

end
